(* ===== verification/Prelude.thy ===== *)
theory Prelude
  imports Main "HOL-Library.Word" "HOL-Library.Monad_Syntax"
begin

text \<open>
  What the components share: bytes and characters, the outcome of a routine that reads memory
  through a pointer, the two choices the machine and the compiler make for the program (byte order,
  order of evaluation of the operands of \<open>+\<close>), integers in memory, and the arithmetic of the C
  type \<open>int\<close>.

  \<^item> \<open>byte\<close> is \<open>uint8_t\<close>; a \<open>std::basic_string<uint8_t>\<close> is a \<open>byte list\<close>, a \<open>std::string\<close> is a
    \<open>string\<close> (a list of 8-bit characters). \<open>bytes_of\<close> and \<open>string_of\<close> are the casts between the
    two.
  \<^item> \<open>Got x\<close>: the routine returned \<open>true\<close> with its results \<open>x\<close>. \<open>Refused e\<close>: it returned \<open>false\<close>,
    having stored \<open>e\<close> in \<open>_lasterr\<close> (\<open>pberr_ok\<close>: nothing was stored). \<open>Fault\<close>: it read memory
    outside the buffer it was given, or overflowed an \<open>int\<close>: undefined behaviour in C++.
\<close>

unbundle bit_operations_syntax

named_theorems codec_simps
  \<open>what evaluates an encoder or a decoder on the bytes another one produced\<close>

type_synonym byte = "8 word"
type_synonym u32 = "32 word"
type_synonym u64 = "64 word"

subsection \<open>Characters and bytes\<close>

definition byte_of_char :: "char \<Rightarrow> byte" where
  "byte_of_char c = of_char c"

definition char_of_byte :: "byte \<Rightarrow> char" where
  "char_of_byte b = char_of (unat b)"

abbreviation bytes_of :: "string \<Rightarrow> byte list" where
  "bytes_of s \<equiv> map byte_of_char s"

abbreviation string_of :: "byte list \<Rightarrow> string" where
  "string_of bs \<equiv> map char_of_byte bs"

lemma of_char_less: "(of_char c :: nat) < 256"
proof -
  have "(of_char c :: nat) = of_char (char_of (of_char c :: nat))" by simp
  also have "\<dots> < 256" unfolding of_char_of by simp
  finally show ?thesis .
qed

lemma of_char_byte: "(of_char c :: byte) = of_nat (of_char c)"
  by (cases c) (simp add: of_char_def)

lemma char_of_byte_of_char [simp]: "char_of_byte (byte_of_char c) = c"
  using of_char_less [of c]
  by (simp add: byte_of_char_def char_of_byte_def of_char_byte unat_of_nat)

lemma byte_of_char_of_byte [simp]: "byte_of_char (char_of_byte b) = b"
proof -
  have "(of_char (char_of (unat b)) :: nat) = unat b"
    unfolding of_char_of using unsigned_less [of b, where 'a = nat] by simp
  then show ?thesis
    by (simp add: byte_of_char_def char_of_byte_def of_char_byte)
qed

lemma string_of_bytes_of [simp]: "string_of (bytes_of s) = s"
  by (simp add: comp_def)

lemma bytes_of_string_of [simp]: "bytes_of (string_of bs) = bs"
  by (simp add: comp_def)

lemma char_byte_comp [simp]: "char_of_byte \<circ> byte_of_char = id" "byte_of_char \<circ> char_of_byte = id"
  by (simp_all add: fun_eq_iff)

lemma byte_of_char_inject [simp]: "byte_of_char c = byte_of_char d \<longleftrightarrow> c = d"
  by (metis char_of_byte_of_char)

subsection \<open>Outcomes of the reading routines\<close>

datatype pberr = pberr_ok | pberr_encode | pberr_decode | pberr_str_non_utf8 | pberr_memory

datatype 'a rd = Got 'a | Refused pberr | Fault

primrec rd_bind :: "'a rd \<Rightarrow> ('a \<Rightarrow> 'b rd) \<Rightarrow> 'b rd" where
  "rd_bind (Got x) f = f x"
| "rd_bind (Refused e) f = Refused e"
| "rd_bind Fault f = Fault"

lemma rd_bind_eq_Got:
  "rd_bind m f = Got y \<longleftrightarrow> (\<exists>x. m = Got x \<and> f x = Got y)"
  by (cases m) auto

lemma rd_bind_eq_Fault:
  "rd_bind m f = Fault \<longleftrightarrow> m = Fault \<or> (\<exists>x. m = Got x \<and> f x = Fault)"
  by (cases m) auto

lemma rd_bind_cong [fundef_cong]:
  "m = m' \<Longrightarrow> (\<And>x. m' = Got x \<Longrightarrow> f x = f' x) \<Longrightarrow> rd_bind m f = rd_bind m' f'"
  by (cases m') auto

subsection \<open>Choices of the compiler and the machine\<close>

text \<open>
  \<open>isbig\<close>: the host stores integers with the most significant byte first. \<open>plus_rhs_first\<close>: the
  compiler evaluates the right operand of a built-in \<open>+\<close> before the left one, which C++ leaves
  open. The program's behaviour is stated for every choice.
\<close>

record target =
  isbig :: bool
  plus_rhs_first :: bool

subsection \<open>Integers in memory\<close>

definition le_bytes :: "'a::len word \<Rightarrow> byte list" where
  "le_bytes w = map (\<lambda>i. ucast (drop_bit (8 * i) w)) [0..<LENGTH('a) div 8]"

primrec of_le :: "byte list \<Rightarrow> 'a::len word" where
  "of_le [] = 0"
| "of_le (b # bs) = ucast b OR push_bit 8 (of_le bs)"

text \<open>\<open>memcpy\<close> of an integer to and from memory, and \<open>bswap_32\<close>, \<open>bswap_64\<close>.\<close>

definition store_int :: "target \<Rightarrow> 'a::len word \<Rightarrow> byte list" where
  "store_int tg w = (if isbig tg then rev (le_bytes w) else le_bytes w)"

definition load_int :: "target \<Rightarrow> byte list \<Rightarrow> 'a::len word" where
  "load_int tg bs = of_le (if isbig tg then rev bs else bs)"

definition bswap :: "'a::len word \<Rightarrow> 'a word" where
  "bswap w = of_le (rev (le_bytes w))"

lemma length_le_bytes [simp]: "length (le_bytes (w :: 'a::len word)) = LENGTH('a) div 8"
  by (simp add: le_bytes_def)

lemma length_store_int [simp]: "length (store_int tg (w :: 'a::len word)) = LENGTH('a) div 8"
  by (simp add: store_int_def)

lemma bit_of_le:
  "bit (of_le bs :: 'a::len word) n \<longleftrightarrow>
     n < LENGTH('a) \<and> n div 8 < length bs \<and> bit (bs ! (n div 8)) (n mod 8)"
proof (induction bs arbitrary: n)
  case Nil
  show ?case by simp
next
  case (Cons b bs)
  show ?case
  proof (cases "n < 8")
    case True
    then show ?thesis by (auto simp: bit_simps)
  next
    case False
    then have "n div 8 = Suc ((n - 8) div 8)" and "n mod 8 = (n - 8) mod 8"
      by (simp_all add: div_if mod_if)
    moreover have "\<not> bit b n"
      using False by (simp add: bit_word.rep_eq not_less)
    ultimately show ?thesis
      using False by (auto simp: bit_simps Cons.IH)
  qed
qed

lemma of_le_le_bytes [simp]:
  assumes "8 dvd LENGTH('a::len)"
  shows "of_le (le_bytes (w :: 'a word)) = w"
proof (rule bit_word_eqI)
  fix n assume n: "n < LENGTH('a)"
  then have "n div 8 < LENGTH('a) div 8"
    using assms by (auto elim!: dvdE)
  with n show "bit (of_le (le_bytes w) :: 'a word) n = bit w n"
    by (simp add: bit_of_le le_bytes_def bit_simps)
qed

lemma le_bytes_of_le [simp]:
  assumes "8 * length bs = LENGTH('a::len)"
  shows "le_bytes (of_le bs :: 'a word) = bs"
proof (rule nth_equalityI)
  show "length (le_bytes (of_le bs :: 'a word)) = length bs"
    using assms [symmetric] by simp
next
  fix i assume "i < length (le_bytes (of_le bs :: 'a word))"
  then have i: "i < length bs"
    using assms [symmetric] by simp
  show "le_bytes (of_le bs :: 'a word) ! i = bs ! i"
  proof (rule bit_word_eqI)
    fix n assume "n < LENGTH(8)"
    then show "bit (le_bytes (of_le bs :: 'a word) ! i) n = bit (bs ! i) n"
      using i assms [symmetric] by (auto simp: le_bytes_def bit_simps bit_of_le)
  qed
qed

lemma le_bytes_bswap:
  assumes "8 dvd LENGTH('a::len)"
  shows "le_bytes (bswap (w :: 'a word)) = rev (le_bytes w)"
  using assms by (simp add: bswap_def)

lemma bswap_of_le_rev:
  assumes "8 * length bs = LENGTH('a::len)"
  shows "bswap (of_le (rev bs) :: 'a word) = of_le bs"
  using assms by (simp add: bswap_def)

subsection \<open>The C type int\<close>

definition int32 :: "int \<Rightarrow> int" where
  "int32 i = signed_take_bit 31 i"

definition int_ok :: "int \<Rightarrow> bool" where
  "int_ok i \<longleftrightarrow> - (2 ^ 31) \<le> i \<and> i < 2 ^ 31"

lemma int32_id [simp]: "int_ok i \<Longrightarrow> int32 i = i"
  by (simp add: int32_def int_ok_def signed_take_bit_int_eq_self)

lemma int_ok_int32 [simp]: "int_ok (int32 i)"
  using signed_take_bit_int_greater_eq_minus_exp [of 31 i] signed_take_bit_int_less_exp [of 31 i]
  by (simp add: int32_def int_ok_def)

lemma int_ok_0 [simp]: "int_ok 0"
  by (simp add: int_ok_def)

lemma int_ok_between: "int_ok j \<Longrightarrow> 0 \<le> i \<Longrightarrow> i \<le> j \<Longrightarrow> int_ok i"
  by (simp add: int_ok_def)

end
