(* ===== verification/Codec.thy ===== *)
theory Codec
  imports Prelude
begin

text \<open>
  Reading positions, and the contract of an encoding that can be read back.

  A reading position is the pair the C++ passes by reference, \<open>const uint8_t *&pd, int &len\<close>: the
  bytes of the buffer from \<open>pd\<close> on, and \<open>len\<close>. The two are separate, as in the code: \<open>len\<close> is what
  the code believes is left, and only positions that are \<open>in_step\<close> have it equal to what is left.

  The locale \<open>codec\<close> is the interface between the scalar encodings (varint, fixed-width) and the
  message layer: what a writer appends, its reader takes off the front of any longer buffer, leaving
  the rest. From that alone follow prefix-freeness and the unique readability of a packed sequence.
\<close>

record cursor =
  pd :: "byte list"
  len :: int

definition at_bytes :: "byte list \<Rightarrow> cursor" where
  "at_bytes bs = \<lparr>pd = bs, len = int (length bs)\<rparr>"

definition in_step :: "cursor \<Rightarrow> bool" where
  "in_step c \<longleftrightarrow> len c = int (length (pd c)) \<and> int_ok (len c)"

text \<open>\<open>c'\<close> is \<open>c\<close> after a non-empty part of the buffer was read, \<open>len\<close> having kept step.\<close>

definition moved :: "cursor \<Rightarrow> cursor \<Rightarrow> bool" where
  "moved c c' \<longleftrightarrow>
     (\<exists>used. used \<noteq> [] \<and> pd c = used @ pd c' \<and> len c' = len c - int (length used))"

lemma in_step_at_bytes [simp]: "in_step (at_bytes bs) \<longleftrightarrow> int_ok (int (length bs))"
  by (simp add: in_step_def at_bytes_def)

lemma at_bytes_sel [simp]: "pd (at_bytes bs) = bs" "len (at_bytes bs) = int (length bs)"
  by (simp_all add: at_bytes_def)

lemma in_step_eq_at_bytes: "in_step c \<Longrightarrow> c = at_bytes (pd c)"
  by (cases c) (simp add: in_step_def at_bytes_def)

lemma moved_in_step: "moved c c' \<Longrightarrow> in_step c \<Longrightarrow> in_step c'"
  by (auto simp: moved_def in_step_def int_ok_def)

lemma moved_shorter: "moved c c' \<Longrightarrow> length (pd c') < length (pd c)"
  by (auto simp: moved_def)

lemma moved_trans: "moved a b \<Longrightarrow> moved b c \<Longrightarrow> moved a c"
  unfolding moved_def by (metis append.assoc append_is_Nil_conv diff_diff_eq length_append of_nat_add)

locale codec =
  fixes enc :: "'a \<Rightarrow> byte list"
    and dec :: "cursor \<Rightarrow> ('a \<times> cursor) rd"
  assumes enc_nonempty: "enc x \<noteq> []"
    and dec_enc: "int (length (enc x)) \<le> k \<Longrightarrow>
      dec \<lparr>pd = enc x @ rest, len = k\<rparr> = Got (x, \<lparr>pd = rest, len = k - int (length (enc x))\<rparr>)"
begin

lemma dec_at_bytes: "dec (at_bytes (enc x @ rest)) = Got (x, at_bytes rest)"
  using dec_enc [of x "int (length (enc x @ rest))" rest] by (simp add: at_bytes_def)

lemma enc_prefix_free: "enc x @ r = enc y @ s \<Longrightarrow> x = y \<and> r = s"
  using dec_at_bytes [of x r] dec_at_bytes [of y s] by (auto simp: at_bytes_def)

lemma enc_inject: "enc x = enc y \<longleftrightarrow> x = y"
  using enc_prefix_free [of x "[]" y "[]"] by auto

lemma concat_enc_inject: "concat (map enc xs) = concat (map enc ys) \<longleftrightarrow> xs = ys"
proof
  show "concat (map enc xs) = concat (map enc ys) \<Longrightarrow> xs = ys"
  proof (induction xs arbitrary: ys)
    case Nil
    then show ?case using enc_nonempty by (cases ys) auto
  next
    case (Cons x xs)
    then show ?case using enc_nonempty by (cases ys) (auto dest: enc_prefix_free)
  qed
qed simp

lemma length_concat_enc: "length xs \<le> length (concat (map enc xs))"
proof (induction xs)
  case (Cons x xs)
  then show ?case using enc_nonempty [of x] by (cases "enc x") auto
qed simp

end

end
