(* ===== verification/Varint.thy ===== *)
theory Varint
  imports Codec
begin

text \<open>
  \<open>base_protobuf\<close> of \<open>ec_protobuf.h\<close>, first half: the Base 128 Varint reader and writer, their
  size, ZigZag and the UTF-8 test.
\<close>

subsection \<open>Reading a varint\<close>

text \<open>
  The loop of \<open>get_varint\<close>: \<open>nbit\<close> is the shift, \<open>out\<close> the value so far; \<open>'a\<close> is the unsigned type
  \<open>_Tp\<close> of the output.
\<close>

fun get_varint_loop :: "byte list \<Rightarrow> int \<Rightarrow> nat \<Rightarrow> 'a::len word \<Rightarrow> ('a word \<times> cursor) rd" where
  "get_varint_loop [] n nbit out = Fault"
| "get_varint_loop (b # bs) n nbit out =
     (let out = out OR push_bit nbit (ucast b AND 0x7F)
      in if b AND 0x80 = 0 then Got (out, \<lparr>pd = bs, len = n - 1\<rparr>)
         else let nbit = nbit + 7; n = n - 1
              in if 0 < n \<and> nbit < LENGTH('a) then get_varint_loop bs n nbit out
                 else Refused pberr_decode)"

definition get_varint :: "cursor \<Rightarrow> ('a::len word \<times> cursor) rd" where
  "get_varint c =
     (if len c \<le> 0 then Refused pberr_ok else get_varint_loop (pd c) (len c) 0 0)"

subsection \<open>Writing a varint\<close>

function out_varint_loop :: "'a::len word \<Rightarrow> nat \<Rightarrow> byte list \<Rightarrow> byte list \<times> nat" where
  "out_varint_loop v nbit pout =
     (let out = ucast (drop_bit nbit v AND 0x7F); nbit = nbit + 7
      in if drop_bit nbit v \<noteq> 0
         then let pout = pout @ [out OR 0x80]
              in if nbit + 7 < LENGTH('a) then out_varint_loop v nbit pout else (pout, nbit)
         else (pout @ [out], nbit))"
  by pat_completeness auto
termination
  by (relation "measure (\<lambda>(v :: 'a word, nbit, pout). LENGTH('a) - nbit)") auto

declare out_varint_loop.simps [simp del]

definition out_varint :: "'a::len word \<Rightarrow> byte list \<Rightarrow> byte list" where
  "out_varint v pout =
     (let (pout, nbit) = out_varint_loop v 0 pout
      in if drop_bit nbit v \<noteq> 0 then pout @ [ucast (drop_bit nbit v)] else pout)"

function size_varint_loop :: "'a::len word \<Rightarrow> nat \<Rightarrow> nat \<Rightarrow> nat \<times> nat" where
  "size_varint_loop v nbit zret =
     (let nbit = nbit + 7; zret = zret + 1
      in if drop_bit nbit v = 0 then (zret, nbit)
         else if nbit + 7 < LENGTH('a) then size_varint_loop v nbit zret else (zret, nbit))"
  by pat_completeness auto
termination
  by (relation "measure (\<lambda>(v :: 'a word, nbit, zret). LENGTH('a) - nbit)") auto

declare size_varint_loop.simps [simp del]

definition size_varint :: "'a::len word \<Rightarrow> nat" where
  "size_varint v =
     (let (zret, nbit) = size_varint_loop v 0 0
      in if drop_bit nbit v \<noteq> 0 then zret + 1 else zret)"

subsection \<open>ZigZag\<close>

definition zigzag_encode :: "'a::len word \<Rightarrow> 'a word" where
  "zigzag_encode v = push_bit 1 v XOR signed_drop_bit (LENGTH('a) - 1) v"

definition zigzag_decode :: "'a::len word \<Rightarrow> 'a word" where
  "zigzag_decode v = drop_bit 1 v XOR - (v AND 1)"

subsection \<open>The UTF-8 test\<close>

fun isutf8_loop :: "nat \<Rightarrow> byte list \<Rightarrow> bool" where
  "isutf8_loop nb [] \<longleftrightarrow> nb = 0"
| "isutf8_loop nb (c # s) \<longleftrightarrow>
     (if nb = 0 then
        (if c AND 0x80 = 0 then isutf8_loop 0 s
         else if 0xFC \<le> c \<and> c \<le> 0xFD then isutf8_loop 5 s
         else if 0xF8 \<le> c then isutf8_loop 4 s
         else if 0xF0 \<le> c then isutf8_loop 3 s
         else if 0xE0 \<le> c then isutf8_loop 2 s
         else False)
      else if c AND 0xC0 \<noteq> 0x80 then False
      else isutf8_loop (nb - 1) s)"

definition isutf8 :: "byte list \<Rightarrow> bool" where
  "isutf8 s = isutf8_loop 0 s"

subsection \<open>Bits of bytes\<close>

lemma unat_drop_bit: "unat (drop_bit n (v :: 'a::len word)) = unat v div 2 ^ n"
  by (simp only: unsigned_drop_bit_eq drop_bit_eq_div[symmetric]) (simp add: take_bit_nat_eq_self drop_bit_eq_div)

lemma bit_0x80: "bit (0x80 :: byte) k \<longleftrightarrow> k = 7"
proof -
  have "bit (push_bit 7 1 :: byte) k \<longleftrightarrow> k = 7"
    by (auto simp only: bit_simps) simp_all
  then show ?thesis by simp
qed
lemma word_0x7F: "(0x7F :: 'a::len word) = mask 7" by (simp add: mask_eq_exp_minus_1)
lemma bit_nat_less_128: 
  assumes "n < 128" "bit (n :: nat) k" shows "k < 7"
proof -
  have "take_bit 7 n = n" using assms(1) by (simp add: take_bit_nat_eq_self)
  then show ?thesis using assms(2) by (metis bit_take_bit_iff)
qed

lemmas byte_bits = bit_and_iff bit_or_iff bit_0x80 bit_mask_iff bit_of_nat_iff
lemma or_high_bit: "n < 128 \<Longrightarrow> (of_nat n OR 0x80 :: byte) = of_nat (128 + n)"
proof -
  assume n: "n < 128"
  have "(0x80 AND of_nat n :: byte) = 0"
    by (rule bit_word_eqI) (auto simp: byte_bits simp del: bit_numeral_word_iff dest: bit_nat_less_128 [OF n])
  then have "(0x80 OR of_nat n :: byte) = 0x80 + of_nat n"
    by (rule disjunctive_add_eq_or[symmetric])
  then show ?thesis by (simp add: or.commute)
qed
lemma low7_byte: 
  assumes n: "n < 128" shows "(of_nat n AND 0x7F :: byte) = of_nat n" 
  unfolding word_0x7F by (rule bit_word_eqI) (auto simp: byte_bits simp del: bit_numeral_word_iff dest: bit_nat_less_128 [OF n])
lemma low7_byte': assumes n: "n < 128" shows "(of_nat (128 + n) AND 0x7F :: byte) = of_nat n"
  unfolding word_0x7F or_high_bit [OF n, symmetric]
 by (rule bit_word_eqI) (auto simp: byte_bits simp del: bit_numeral_word_iff dest: bit_nat_less_128 [OF n])
lemma high_bit_byte: assumes n: "n < 128" shows "(of_nat n AND 0x80 :: byte) = 0" 
   by (rule bit_word_eqI) (auto simp: byte_bits simp del: bit_numeral_word_iff dest: bit_nat_less_128 [OF n])
lemma high_bit_byte': assumes n: "n < 128" shows "(of_nat (128 + n) AND 0x80 :: byte) \<noteq> 0"
proof -
  have "bit (of_nat (128 + n) AND 0x80 :: byte) 7"
  unfolding or_high_bit [OF n, symmetric]  by (simp add: bit_simps bit_0x80)
  then show ?thesis by auto
qed

lemma low7: "ucast (x AND 0x7F :: 'a::len word) = (of_nat (unat x mod 128) :: byte)"
proof -
  have "ucast (x AND 0x7F) = (of_nat (unat (take_bit 7 x)) :: byte)"
    by (simp only: take_bit_eq_mask word_0x7F of_nat_unat)
  also have "unat (take_bit 7 x) = take_bit 7 (unat x)"
    by (rule unsigned_take_bit_eq)
  finally show ?thesis by (simp add: take_bit_eq_mod)
qed

fun leb128 :: "nat \<Rightarrow> byte list" where
  "leb128 n = (if n < 128 then [of_nat n] else of_nat (128 + n mod 128) # leb128 (n div 128))"

declare leb128.simps [simp del]

lemma leb128_small: "n < 128 \<Longrightarrow> leb128 n = [of_nat n]"
  by (simp add: leb128.simps)

lemma leb128_big: "\<not> n < 128 \<Longrightarrow> leb128 n = of_nat (128 + n mod 128) # leb128 (n div 128)"
  by (simp add: leb128.simps)

lemma leb128_not_Nil [simp]: "leb128 n \<noteq> []"
  by (subst leb128.simps) simp

lemma leb128_pos: "0 < length (leb128 n)"
  by simp

lemma low7_or_high: "ucast (x AND 0x7F :: 'a::len word) OR 0x80 = (of_nat (128 + unat x mod 128) :: byte)"
  unfolding low7 by (rule or_high_bit) simp

lemma drop_bit_is_0: "drop_bit n (v :: 'a::len word) = 0 \<longleftrightarrow> unat v div 2 ^ n = 0"
  by (metis unat_drop_bit unsigned_0 unsigned_eq_0_iff)

lemma last_group:
  assumes "LENGTH('a) \<le> nbit + 7"
  shows "unat (v :: 'a::len word) div 2 ^ nbit < 128"
proof -
  have "unat v < 2 ^ LENGTH('a)" by (rule unsigned_less)
  also have "\<dots> \<le> 2 ^ (nbit + 7)" using assms by (rule power_increasing) simp
  finally show ?thesis by (simp add: less_mult_imp_div_less power_add mult.commute)
qed

lemma out_varint_loop_leb128:
  "(case out_varint_loop v nbit pout of (po, nb) \<Rightarrow>
     if drop_bit nb v \<noteq> 0 then po @ [ucast (drop_bit nb v)] else po) =
   pout @ leb128 (unat v div 2 ^ nbit)"
proof (induction v nbit pout rule: out_varint_loop.induct)
  case (1 v nbit pout)
  let ?n = "unat v div 2 ^ nbit"
  have n7: "unat v div 2 ^ (nbit + 7) = ?n div 128"
    by (simp add: power_add div_mult2_eq)
  show ?case
  proof (cases "?n < 128")
    case True
    then show ?thesis
      by (simp add: out_varint_loop.simps [of v nbit] drop_bit_is_0 n7 leb128_small low7 unat_drop_bit)
  next
    case False
    then have more: "drop_bit (nbit + 7) v \<noteq> 0"
      by (simp add: drop_bit_is_0 n7 div_eq_0_iff)
    show ?thesis
    proof (cases "nbit + 7 + 7 < LENGTH('a)")
      case True
      then show ?thesis
        using 1 [OF refl refl more refl True] more False
        by (simp add: out_varint_loop.simps [of v nbit] n7 leb128_big low7_or_high unat_drop_bit)
    next
      case not: False
      then have "?n div 128 < 128" using last_group [of "nbit + 7" v] by (simp add: n7)
      moreover have "(ucast (drop_bit (nbit + 7) v) :: byte) = of_nat (?n div 128)"
        by (metis n7 of_nat_unat unat_drop_bit)
      ultimately show ?thesis
        using more False not
        by (simp add: out_varint_loop.simps [of v nbit] leb128_big leb128_small low7_or_high unat_drop_bit)
    qed
  qed
qed

lemma out_varint_leb128: "out_varint v pout = pout @ leb128 (unat v)"
  using out_varint_loop_leb128 [of v 0 pout] by (simp add: out_varint_def)

lemma size_varint_loop_leb128:
  "(case size_varint_loop v nbit z of (zret, nb) \<Rightarrow> if drop_bit nb v \<noteq> 0 then zret + 1 else zret) =
   z + length (leb128 (unat v div 2 ^ nbit))"
proof (induction v nbit z rule: size_varint_loop.induct)
  case (1 v nbit z)
  let ?n = "unat v div 2 ^ nbit"
  have n7: "unat v div 2 ^ (nbit + 7) = ?n div 128"
    by (simp add: power_add div_mult2_eq)
  show ?case
  proof (cases "?n < 128")
    case True
    then show ?thesis
      by (simp add: size_varint_loop.simps [of v nbit] drop_bit_is_0 n7 leb128_small)
  next
    case False
    then have more: "drop_bit (nbit + 7) v \<noteq> 0"
      by (simp add: drop_bit_is_0 n7 div_eq_0_iff)
    show ?thesis
    proof (cases "nbit + 7 + 7 < LENGTH('a)")
      case True
      then show ?thesis
        using 1 [OF refl refl more True] more False
        by (simp add: size_varint_loop.simps [of v nbit] n7 leb128_big)
    next
      case not: False
      then have "?n div 128 < 128" using last_group [of "nbit + 7" v] by (simp add: n7)
      then show ?thesis
        using more False not
        by (simp add: size_varint_loop.simps [of v nbit] leb128_big leb128_small)
    qed
  qed
qed

lemma size_varint_leb128: "size_varint v = length (leb128 (unat v))"
  using size_varint_loop_leb128 [of v 0 0] by (simp add: size_varint_def)

lemma ucast_byte_of_nat: "n < 256 \<Longrightarrow> ucast (of_nat n :: byte) = (of_nat n :: 'a::len word)"
  by (simp add: unsigned_of_nat take_bit_nat_eq_self)

lemma group_split:
  "(of_nat n :: 'a::len word) = of_nat (n mod 128) OR push_bit 7 (of_nat (n div 128))"
proof -
  have "n = take_bit 7 n OR push_bit 7 (drop_bit 7 n)"
  proof (rule bit_eqI)
    fix k show "bit n k = bit (take_bit 7 n OR push_bit 7 (drop_bit 7 n)) k"
      by (cases "k < 7") (simp_all add: bit_simps)
  qed
  then have "n = (n mod 128) OR push_bit 7 (n div 128)"
    by (simp add: take_bit_eq_mod drop_bit_eq_div)
  then have "(of_nat n :: 'a word) = of_nat ((n mod 128) OR push_bit 7 (n div 128))" by simp
  then show ?thesis by (simp only: of_nat_or_eq of_nat_push_bit)
qed

lemma ucast_low7:
  assumes "m < 128"
  shows "(ucast (of_nat m :: byte) AND 0x7F :: 'a::len word) = of_nat m"
    and "(ucast (of_nat (128 + m) :: byte) AND 0x7F :: 'a::len word) = of_nat m"
proof -
  have and7: "(ucast b AND 0x7F :: 'a word) = ucast (b AND 0x7F)" for b :: byte
    unfolding word_0x7F by (rule bit_word_eqI) (auto simp: bit_simps)
  have "ucast (of_nat m :: byte) = (of_nat m :: 'a word)"
    by (rule ucast_byte_of_nat) (use assms in simp)
  then show "(ucast (of_nat m :: byte) AND 0x7F :: 'a::len word) = of_nat m"
    and "(ucast (of_nat (128 + m) :: byte) AND 0x7F :: 'a::len word) = of_nat m"
    unfolding and7 low7_byte [OF assms] low7_byte' [OF assms] by blast+
qed

lemma get_varint_loop_more:
  assumes "b AND 0x80 \<noteq> 0" and "ucast b AND 0x7F = g" and "0 < k - 1" and "nbit + 7 < LENGTH('a)"
  shows "get_varint_loop (b # bs) k nbit (out :: 'a::len word) =
    get_varint_loop bs (k - 1) (nbit + 7) (out OR push_bit nbit g)"
  using assms by (simp del: push_bit_and)

subsection \<open>Reading back what was written\<close>

lemma get_varint_loop_leb128:
  assumes "n < 2 ^ (LENGTH('a) - nbit)" and "nbit < LENGTH('a)" and "int (length (leb128 n)) \<le> k"
  shows "get_varint_loop (leb128 n @ rest) k nbit (out :: 'a::len word) =
    Got (out OR push_bit nbit (of_nat n), \<lparr>pd = rest, len = k - int (length (leb128 n))\<rparr>)"
  using assms
proof (induction n arbitrary: nbit out k rule: leb128.induct)
  case (1 n)
  show ?case
  proof (cases "n < 128")
    case True
    then show ?thesis
      by (simp add: leb128_small high_bit_byte ucast_low7)
  next
    case False
    let ?m = "n mod 128"
    have m: "?m < 128" by simp
    have nb: "nbit + 7 < LENGTH('a)"
    proof (rule ccontr)
      assume "\<not> nbit + 7 < LENGTH('a)"
      then have "LENGTH('a) - nbit \<le> 7" by simp
      then have "(2::nat) ^ (LENGTH('a) - nbit) \<le> 2 ^ 7" by (rule power_increasing) simp
      with "1.prems"(1) False show False by simp
    qed
    have "n < 2 ^ (LENGTH('a) - (nbit + 7)) * 128"
    proof -
      have "LENGTH('a) - nbit = LENGTH('a) - (nbit + 7) + 7" using nb by simp
      then show ?thesis using "1.prems"(1) by (simp only: power_add) simp
    qed
    then have lt: "n div 128 < 2 ^ (LENGTH('a) - (nbit + 7))"
      by (rule less_mult_imp_div_less)
    have k: "int (length (leb128 (n div 128))) \<le> k - 1"
      using "1.prems"(3) False by (simp add: leb128_big)
    then have k0: "0 < k - 1" by (smt (verit) leb128_pos of_nat_0_less_iff)
    have join: "(out OR push_bit nbit (of_nat ?m)) OR push_bit (nbit + 7) (of_nat (n div 128))
      = out OR push_bit nbit (of_nat n)"
      by (subst (3) group_split) (simp add: or.assoc push_bit_or add.commute)
    have "get_varint_loop (leb128 n @ rest) k nbit out =
      get_varint_loop (leb128 (n div 128) @ rest) (k - 1) (nbit + 7) (out OR push_bit nbit (of_nat ?m))"
      using get_varint_loop_more [OF high_bit_byte' [OF m] ucast_low7(2) [OF m] k0 nb]
      by (simp only: leb128_big [OF False] append_Cons)
    then show ?thesis
      using "1.IH" [OF False lt nb k] False by (simp add: join leb128_big)
  qed
qed

lemma get_varint_leb128:
  assumes "n < 2 ^ LENGTH('a::len)" and "int (length (leb128 n)) \<le> k"
  shows "get_varint \<lparr>pd = leb128 n @ rest, len = k\<rparr> =
    Got (of_nat n :: 'a word, \<lparr>pd = rest, len = k - int (length (leb128 n))\<rparr>)"
proof -
  have "\<not> k \<le> 0" using assms(2) leb128_pos [of n] by linarith
  then show ?thesis
    using get_varint_loop_leb128 [of n 0 k rest "0 :: 'a word"] assms by (simp add: get_varint_def)
qed


subsection \<open>Every read stays in the buffer\<close>

lemma get_varint_loop_safe:
  assumes "k = int (length bs)" and "0 < k" and "nbit < LENGTH('a::len)"
  shows "get_varint_loop bs k nbit (out :: 'a word) \<noteq> Fault"
  using assms
proof (induction bs k nbit out rule: get_varint_loop.induct)
  case (2 b bs n nbit out)
  then show ?case by (auto simp: Let_def)
qed simp

lemma get_varint_loop_used:
  assumes "get_varint_loop bs k nbit (out :: 'a::len word) = Got (v, c)"
  shows "\<exists>used. used \<noteq> [] \<and> bs = used @ pd c \<and> len c = k - int (length used) \<and>
    nbit + 7 * (length used - 1) < max (Suc nbit) LENGTH('a)"
  using assms
proof (induction bs k nbit out arbitrary: v c rule: get_varint_loop.induct)
  case (2 b bs n nbit out)
  show ?case
  proof (cases "b AND 0x80 = 0")
    case True
    with "2.prems" show ?thesis by (intro exI [of _ "[b]"]) (auto simp: Let_def)
  next
    case False
    with "2.prems" have more: "0 < n - 1 \<and> nbit + 7 < LENGTH('a)"
      by (auto simp: Let_def split: if_splits)
    with False "2.prems" obtain used where u: "used \<noteq> []" "bs = used @ pd c"
      "len c = n - 1 - int (length used)" "nbit + 7 + 7 * (length used - 1) < max (Suc (nbit + 7)) LENGTH('a)"
      using "2.IH" [OF refl False refl refl] by (auto simp: Let_def)
    then show ?thesis using more
      by (intro exI [of _ "b # used"]) (cases used, auto)
  qed
qed simp

lemma get_varint_safe: "in_step c \<Longrightarrow> get_varint c \<noteq> (Fault :: ('a::len word \<times> cursor) rd)"
  using get_varint_loop_safe [of "len c" "pd c" 0 "0 :: 'a word"]
  by (simp add: get_varint_def in_step_def)

lemma get_varint_moved: "get_varint c = Got (v :: 'a::len word, c') \<Longrightarrow> moved c c'"
  unfolding get_varint_def moved_def by (auto split: if_splits dest: get_varint_loop_used)

subsection \<open>ZigZag\<close>

lemma signed_drop_bit_msb:
  "signed_drop_bit (LENGTH('a) - 1) (v :: 'a::len word) = (if sint v < 0 then - 1 else 0)"
proof (rule bit_word_eqI)
  fix n assume "n < LENGTH('a)"
  then show "bit (signed_drop_bit (LENGTH('a) - 1) v) n = bit (if sint v < 0 then - 1 else 0 :: 'a word) n"
    by (cases "n = 0") (auto simp: bit_signed_drop_bit_iff bit_last_iff Suc_le_eq)
qed

lemma bit_push_1: "bit (push_bit 1 (v :: 'a::len word)) n \<longleftrightarrow> n < LENGTH('a) \<and> n \<noteq> 0 \<and> bit v (n - 1)"
  by (auto simp only: bit_push_bit_iff possible_bit_word not_less_eq_eq Suc_le_eq One_nat_def intro: gr0I)

lemma bit_drop_1: "bit (drop_bit 1 (v :: 'a::len word)) n \<longleftrightarrow> bit v (Suc n)"
  by (simp only: bit_drop_bit_eq o_def plus_1_eq_Suc)

lemma bit_zigzag_encode:
  "bit (zigzag_encode (v :: 'a::len word)) n \<longleftrightarrow>
     n < LENGTH('a) \<and> (n \<noteq> 0 \<and> bit v (n - 1)) \<noteq> (sint v < 0)"
  by (auto simp only: zigzag_encode_def bit_xor_iff bit_push_1 signed_drop_bit_msb bit_minus_1_iff bit_0_eq split: if_splits)
    auto

lemma bit_zigzag_decode:
  "bit (zigzag_decode (v :: 'a::len word)) n \<longleftrightarrow> n < LENGTH('a) \<and> bit v (Suc n) \<noteq> bit v 0"
proof -
  have "v AND 1 = (if bit v 0 then 1 else 0)"
  proof (rule bit_word_eqI)
    fix k show "bit (v AND 1) k = bit (if bit v 0 then 1 else 0 :: 'a word) k"
      by (cases "k = 0") (simp_all add: bit_and_iff bit_1_iff)
  qed
  then have "bit (- (v AND 1)) n \<longleftrightarrow> n < LENGTH('a) \<and> bit v 0"
    by simp
  then show ?thesis
    by (auto simp only: zigzag_decode_def bit_xor_iff bit_drop_1 dest: bit_imp_le_length)
qed

lemma zigzag_decode_encode:
  assumes "1 < LENGTH('a)" shows "zigzag_decode (zigzag_encode v) = (v :: 'a::len word)"
proof (rule bit_word_eqI)
  fix n assume n: "n < LENGTH('a)"
  show "bit (zigzag_decode (zigzag_encode v)) n = bit v n"
  proof (cases "Suc n < LENGTH('a)")
    case True
    with n show ?thesis by (auto simp: bit_zigzag_decode bit_zigzag_encode)
  next
    case False
    with n have "n = LENGTH('a) - Suc 0" by simp
    then have "bit v n \<longleftrightarrow> sint v < 0" by (simp add: bit_last_iff)
    with n False assms show ?thesis by (simp add: bit_zigzag_decode bit_zigzag_encode)
  qed
qed

lemma zigzag_encode_int:
  "zigzag_encode (v :: 'a::len word) = word_of_int (if 0 \<le> sint v then 2 * sint v else - 2 * sint v - 1)"
proof (rule bit_word_eqI)
  fix n assume n: "n < LENGTH('a)"
  have neg: "- 2 * sint v - 1 = NOT (2 * sint v)" by (simp add: not_int_def)
  have dbl: "bit (2 * sint v) n \<longleftrightarrow> n \<noteq> 0 \<and> bit v (n - 1)"
    using n by (auto simp: bit_double_iff bit_sint_iff)
  show "bit (zigzag_encode v) n =
    bit (word_of_int (if 0 \<le> sint v then 2 * sint v else - 2 * sint v - 1) :: 'a word) n"
    unfolding neg using n dbl by (auto simp: bit_zigzag_encode bit_word_of_int_iff bit_not_int_iff)
qed

lemma uint_zigzag_encode:
  "uint (zigzag_encode (v :: 'a::len word)) = (if 0 \<le> sint v then 2 * sint v else - 2 * sint v - 1)"
proof -
  have "- (2 ^ (LENGTH('a) - 1)) \<le> sint v" "sint v < 2 ^ (LENGTH('a) - 1)" 
    by (rule sint_ge, rule sint_lt)
  moreover have "(2 :: int) ^ LENGTH('a) = 2 * 2 ^ (LENGTH('a) - 1)"
    by (simp flip: power_Suc)
  ultimately show ?thesis
    unfolding zigzag_encode_int by (auto simp: uint_word_of_int intro!: mod_pos_pos_trivial)
qed


subsection \<open>The language of the UTF-8 test\<close>

text \<open>
  \<open>utf8_text\<close>: sequences of a lead byte and its trailing bytes, with the number of trailing bytes
  the test expects after each lead (\<open>None\<close>: the byte cannot lead).
\<close>

lemma bit_7_less: "bit c 7 \<longleftrightarrow> \<not> c < (0x80 :: byte)"
proof -
  have "bit c 7 \<longleftrightarrow> bit (unat c) 7"
    by (simp add: bit_unsigned_iff)
  then have "bit c 7 \<longleftrightarrow> odd (unat c div 2 ^ 7)"
    by (simp only: bit_iff_odd)
  moreover have "unat c < 256" using unsigned_less [of c, where 'a = nat] by simp
  then have "odd (unat c div 2 ^ 7) \<longleftrightarrow> 128 \<le> unat c"
    by (cases "unat c < 128") (simp_all add: div_if)
  ultimately show ?thesis by (simp add: word_less_nat_alt not_less)
qed
lemma and_0x80_eq_0: "c AND 0x80 = 0 \<longleftrightarrow> c < (0x80 :: byte)"
proof -
  have "c AND 0x80 = (if bit c 7 then 0x80 else 0)"
    by (rule bit_word_eqI) (auto simp: byte_bits simp del: bit_numeral_word_iff)
  then show ?thesis by (auto simp: bit_7_less)
qed

definition lead_trail :: "byte \<Rightarrow> nat option" where
  "lead_trail c =
     (if c < 0x80 then Some 0 else if c < 0xE0 then None else if c < 0xF0 then Some 2
      else if c < 0xF8 then Some 3 else if c = 0xFC \<or> c = 0xFD then Some 5 else Some 4)"

definition continuation :: "byte \<Rightarrow> bool" where
  "continuation b \<longleftrightarrow> b AND 0xC0 = 0x80"

inductive utf8_text :: "byte list \<Rightarrow> bool" where
  empty: "utf8_text []"
| char: "lead_trail c = Some n \<Longrightarrow> length t = n \<Longrightarrow> list_all continuation t \<Longrightarrow> utf8_text s \<Longrightarrow>
    utf8_text (c # t @ s)"

lemma isutf8_loop_Suc: "isutf8_loop (Suc n) (c # s) \<longleftrightarrow> continuation c \<and> isutf8_loop n s"
  by (simp add: continuation_def)


lemma isutf8_loop_trail:
  "isutf8_loop n s \<longleftrightarrow> n \<le> length s \<and> list_all continuation (take n s) \<and> isutf8_loop 0 (drop n s)"
proof (induction n arbitrary: s)
  case (Suc n)
  show ?case
  proof (cases s)
    case (Cons c s')
    then show ?thesis
      by (simp only: isutf8_loop_Suc Suc.IH [of s']) auto
  qed simp
qed simp

lemma byte_between: "0xFC \<le> c \<and> c \<le> 0xFD \<longleftrightarrow> c = 0xFC \<or> c = (0xFD :: byte)" by unat_arith

lemma isutf8_lead:
  "isutf8_loop 0 (c # s) \<longleftrightarrow> (\<exists>n. lead_trail c = Some n \<and> isutf8_loop n s)"
proof -
  have "c = 0xFC \<or> c = 0xFD \<or> c < 0xFC \<or> 0xFD < c" by unat_arith
  then show ?thesis
    unfolding isutf8_loop.simps(2) if_P [OF refl] and_0x80_eq_0 lead_trail_def byte_between
    by (auto simp: word_less_nat_alt word_le_nat_alt)
qed

lemma isutf8_iff_utf8_text: "isutf8 s \<longleftrightarrow> utf8_text s"
proof
  show "isutf8 s \<Longrightarrow> utf8_text s"
  proof (induction s rule: length_induct)
    case (1 s)
    show ?case
    proof (cases s)
      case Nil
      then show ?thesis by (simp add: utf8_text.empty)
    next
      case (Cons c s')
      with "1.prems" obtain n where n: "lead_trail c = Some n" "n \<le> length s'"
          "list_all continuation (take n s')" "isutf8_loop 0 (drop n s')"
        by (auto simp: isutf8_def isutf8_lead isutf8_loop_trail [of _ s'] simp del: isutf8_loop.simps)
      then have "utf8_text (drop n s')"
        using "1.IH" Cons by (simp add: isutf8_def)
      then have "utf8_text (c # take n s' @ drop n s')"
        using n by (intro utf8_text.char) auto
      then show ?thesis using Cons by simp
    qed
  qed
next
  show "utf8_text s \<Longrightarrow> isutf8 s"
    unfolding isutf8_def
  proof (induction rule: utf8_text.induct)
    case (char c n t s)
    then show ?case by (auto simp: isutf8_lead isutf8_loop_trail [of n] simp del: isutf8_loop.simps)
  qed simp
qed

lemma isutf8_ascii: "list_all (\<lambda>b. b < 0x80) s \<Longrightarrow> isutf8 s"
  by (induction s) (auto simp: isutf8_def and_0x80_eq_0)

lemma utf8_text_append: "utf8_text s \<Longrightarrow> utf8_text t \<Longrightarrow> utf8_text (s @ t)"
  by (induction rule: utf8_text.induct) (auto intro: utf8_text.char)

lemma isutf8_append: "isutf8 s \<Longrightarrow> isutf8 t \<Longrightarrow> isutf8 (s @ t)"
  by (simp add: isutf8_iff_utf8_text utf8_text_append)


lemma bit_6_byte: "bit (b :: byte) 6 \<longleftrightarrow> odd (unat b div 64)"
proof -
  have "bit b 6 \<longleftrightarrow> bit (unat b) 6"
    by (simp add: bit_unsigned_iff)
  then show ?thesis by (simp only: bit_iff_odd) simp
qed

lemma and_0xC0: "b AND (0xC0 :: byte) = (if bit b 7 then 0x80 else 0) OR (if bit b 6 then 0x40 else 0)"
proof (rule bit_word_eqI)
  fix k assume "k < LENGTH(8)"
  then have "k \<in> {0, 1, 2, 3, 4, 5, 6, 7}" by auto
  then show "bit (b AND 0xC0) k = bit ((if bit b 7 then 0x80 else 0) OR (if bit b 6 then 0x40 else 0) :: byte) k"
    by (auto simp: bit_and_iff bit_or_iff)
qed

lemma continuation_iff: "continuation b \<longleftrightarrow> 0x80 \<le> b \<and> b < 0xC0"
proof -
  let ?q = "unat b div 64"
  have q: "?q < 4"
    using unsigned_less [of b, where 'a = nat] by (simp add: less_mult_imp_div_less)
  have "continuation b \<longleftrightarrow> bit b 7 \<and> \<not> bit b 6"
    by (auto simp: continuation_def and_0xC0)
  also have "\<dots> \<longleftrightarrow> 128 \<le> unat b \<and> even ?q"
    by (simp add: bit_7_less bit_6_byte word_less_nat_alt not_less)
  also have "\<dots> \<longleftrightarrow> ?q = 2"
  proof -
    have "128 \<le> unat b \<longleftrightarrow> 2 \<le> ?q" by linarith
    with q show ?thesis by (auto elim!: evenE)
  qed
  also have "\<dots> \<longleftrightarrow> 128 \<le> unat b \<and> unat b < 192" by linarith
  finally show ?thesis by (simp add: word_less_nat_alt word_le_nat_alt)
qed

lemma isutf8_no_two_byte_lead:
  "isutf8 s \<Longrightarrow> b \<in> set s \<Longrightarrow> \<not> (0xC0 \<le> b \<and> b < 0xE0)"
  unfolding isutf8_iff_utf8_text
proof (induction rule: utf8_text.induct)
  case (char c n t s)
  then show ?case
    by (auto simp: lead_trail_def list_all_iff continuation_iff word_less_nat_alt word_le_nat_alt
      split: if_splits)
qed simp

subsection \<open>Length of an encoding, and the codec contract\<close>

lemma length_leb128_le:
  "n < 128 ^ k \<Longrightarrow> 0 < k \<Longrightarrow> length (leb128 n) \<le> k"
proof (induction n arbitrary: k rule: leb128.induct)
  case (1 n)
  show ?case
  proof (cases "n < 128")
    case True
    with "1.prems" show ?thesis by (simp add: leb128_small)
  next
    case False
    with "1.prems" obtain j where j: "k = Suc j" "0 < j"
      by (cases k; cases "k - 1") auto
    then have "n div 128 < 128 ^ j"
      using "1.prems"(1) by (simp add: less_mult_imp_div_less mult.commute)
    with "1.IH" [OF False this j(2)] False j(1) show ?thesis
      by (simp add: leb128_big)
  qed
qed

lemma length_leb128_word:
  assumes "LENGTH('a::len) \<le> 7 * k"
  shows "length (leb128 (unat (v :: 'a word))) \<le> k"
proof (rule length_leb128_le)
  have "unat v < 2 ^ LENGTH('a)" by (rule unsigned_less)
  also have "\<dots> \<le> 2 ^ (7 * k)" using assms by (rule power_increasing) simp
  also have "\<dots> = 128 ^ k" by (simp add: power_mult)
  finally show "unat v < 128 ^ k" .
  show "0 < k" using assms len_gt_0 [where 'a = 'a] by (cases k) auto
qed

interpretation varint: codec "\<lambda>v :: 'a::len word. out_varint v []" get_varint
proof
  fix v :: "'a word" and k rest
  show "out_varint v [] \<noteq> []" by (simp add: out_varint_leb128)
  assume "int (length (out_varint v [])) \<le> k"
  then show "get_varint \<lparr>pd = out_varint v [] @ rest, len = k\<rparr> =
    Got (v, \<lparr>pd = rest, len = k - int (length (out_varint v []))\<rparr>)"
    using get_varint_leb128 [of "unat v" k rest, where 'a = 'a] unsigned_less [of v, where 'a = nat]
    by (simp add: out_varint_leb128)
qed

subsection \<open>Properties\<close>

text \<open>C15. Varints round trip at every width: \<open>out_varint\<close> only appends, what it appends is the
  reference Base 128 encoding, \<open>get_varint\<close> reads the value back in front of any rest with the
  position and the remaining length in step, and \<open>size_varint\<close> announces exactly the bytes
  written.\<close>

theorem varint_round_trip:
  "out_varint (v :: 'a::len word) pout = pout @ leb128 (unat v) \<and>
   get_varint (at_bytes (out_varint v [] @ rest)) = Got (v, at_bytes rest) \<and>
   size_varint v = length (out_varint v [])"
  using varint.dec_at_bytes [of v rest]
  by (simp add: out_varint_leb128 size_varint_leb128)

text \<open>C16. Reading a varint is memory safe and makes progress: from a position whose length is what
  the buffer holds, \<open>get_varint\<close> never reads outside the buffer, and a success consumes at least one
  byte and leaves length and buffer in step.\<close>

theorem get_varint_memory_safe:
  assumes "in_step c"
  shows "get_varint c \<noteq> (Fault :: ('a::len word \<times> cursor) rd) \<and>
    (\<forall>v c'. get_varint c = Got (v :: 'a word, c') \<longrightarrow> moved c c' \<and> in_step c')"
  using assms get_varint_safe get_varint_moved moved_in_step by blast

theorem get_varint_memory_safe_witness:
  "in_step (at_bytes [0xAC, 0x02, 0x07]) \<and>
   get_varint (at_bytes [0xAC, 0x02, 0x07]) = Got (300 :: u32, at_bytes [0x07]) \<and>
   get_varint (at_bytes [0xAC, 0x02, 0x07]) \<noteq> (Fault :: (u32 \<times> cursor) rd)"
proof -
  have s: "in_step (at_bytes [0xAC, 0x02, 0x07])" by (simp add: int_ok_def)
  show ?thesis
    using s get_varint_memory_safe [OF s, where 'a = 32]
    by (simp add: get_varint_def at_bytes_def)
qed

text \<open>ZigZag: the encoding is the arithmetic one (\<open>2 * v\<close> for non-negative values, \<open>-2 * v - 1\<close>
  for negative ones) and decoding inverts it, for the two widths of the code.\<close>

theorem zigzag_round_trip:
  "zigzag_decode (zigzag_encode (v :: u32)) = v \<and> zigzag_decode (zigzag_encode (w :: u64)) = w \<and>
   uint (zigzag_encode v) = (if 0 \<le> sint v then 2 * sint v else - 2 * sint v - 1) \<and>
   uint (zigzag_encode w) = (if 0 \<le> sint w then 2 * sint w else - 2 * sint w - 1)"
  by (simp add: zigzag_decode_encode uint_zigzag_encode)

text \<open>C18. The exact language of \<open>isutf8\<close>: a byte string passes iff it is a sequence of lead bytes each
  followed by its trailing bytes, where ASCII leads take none, \<open>E0\<close> to \<open>EF\<close> two, \<open>F0\<close> to \<open>F7\<close> three,
  \<open>FC\<close> and \<open>FD\<close> five and the other bytes from \<open>F8\<close> on four; so every string with a two-byte
  character (a byte from \<open>C0\<close> to \<open>DF\<close>) is rejected although it can be valid UTF-8, and \<open>FF\<close> is accepted
  as a lead although it never is.\<close>

theorem isutf8_language:
  "(isutf8 s \<longleftrightarrow> utf8_text s) \<and>
   (isutf8 s \<longrightarrow> (\<forall>b \<in> set s. \<not> (0xC0 \<le> b \<and> b < 0xE0))) \<and>
   isutf8 [0xFF, 0x80, 0x80, 0x80, 0x80]"
  using isutf8_iff_utf8_text isutf8_no_two_byte_lead by (auto simp: isutf8_def)

theorem isutf8_language_witness:
  "isutf8 [0x68, 0xE2, 0x82, 0xAC] \<and> \<not> isutf8 [0x68, 0xC3, 0xA9]"
proof
  show "isutf8 [0x68, 0xE2, 0x82, 0xAC]" by (simp add: isutf8_def)
  show "\<not> isutf8 [0x68, 0xC3, 0xA9]"
    using isutf8_language [of "[0x68, 0xC3, 0xA9]"] by force
qed

end
