(* ===== verification/Wire.thy ===== *)
theory Wire
  imports Varint
begin

text \<open>
  \<open>base_protobuf\<close> of \<open>ec_protobuf.h\<close>, second half: fixed-width integers, keys, length-delimited
  values, skipping a value. Writers take the output buffer \<open>pout\<close> and return it extended; running
  out of memory (the \<open>catch\<close> branches) is not modelled, so a writer of this layer always returns
  \<open>true\<close>.
\<close>

subsection \<open>Wire types\<close>

abbreviation pb_varint :: u32 where "pb_varint \<equiv> 0"
abbreviation pb_fixed64 :: u32 where "pb_fixed64 \<equiv> 1"
abbreviation pb_length_delimited :: u32 where "pb_length_delimited \<equiv> 2"
abbreviation pb_start_group :: u32 where "pb_start_group \<equiv> 3"
abbreviation pb_end_group :: u32 where "pb_end_group \<equiv> 4"
abbreviation pb_fixed32 :: u32 where "pb_fixed32 \<equiv> 5"

subsection \<open>Fixed-width integers\<close>

definition get_fixed :: "target \<Rightarrow> cursor \<Rightarrow> ('a::len word \<times> cursor) rd" where
  "get_fixed tg c =
     (let n = LENGTH('a) div 8
      in if len c < int n then Refused pberr_ok
         else if length (pd c) < n then Fault
         else let out = load_int tg (take n (pd c));
                  out = (if isbig tg then bswap out else out)
              in Got (out, \<lparr>pd = drop n (pd c), len = len c - int n\<rparr>))"

definition out_fixed :: "target \<Rightarrow> 'a::len word \<Rightarrow> byte list \<Rightarrow> byte list" where
  "out_fixed tg v pout =
     (if isbig tg then pout @ store_int tg (bswap v) else pout @ store_int tg v)"

subsection \<open>Keys\<close>

definition get_key :: "cursor \<Rightarrow> (u32 \<times> u32 \<times> cursor) rd" where
  "get_key c =
     rd_bind (get_varint c) (\<lambda>(key :: u32, c). Got (drop_bit 3 key, key AND 7, c))"

definition out_key :: "u32 \<Rightarrow> u32 \<Rightarrow> byte list \<Rightarrow> byte list" where
  "out_key field_number wire_type pout =
     out_varint (push_bit 3 field_number OR (wire_type AND 7)) pout"

subsection \<open>Length-delimited values\<close>

text \<open>
  A region \<open>(p, n)\<close> is a pointer into the buffer and a length, not copied; \<open>read_region\<close> is what
  dereferencing its \<open>n\<close> bytes does. The comparison \<open>len < (int)ul\<close> reads the length as signed.
\<close>

type_synonym region = "byte list \<times> nat"

definition read_region :: "region \<Rightarrow> byte list rd" where
  "read_region r = (if snd r \<le> length (fst r) then Got (take (snd r) (fst r)) else Fault)"

definition get_length_delimited :: "cursor \<Rightarrow> (region \<times> cursor) rd" where
  "get_length_delimited c =
     rd_bind (get_varint c) (\<lambda>(ul :: u32, c).
       if len c < sint ul then Refused pberr_decode
       else Got ((pd c, unat ul),
                 \<lparr>pd = drop (unat ul) (pd c), len = int32 (len c - uint ul)\<rparr>))"

definition out_length_delimited :: "byte list \<Rightarrow> byte list \<Rightarrow> byte list" where
  "out_length_delimited bs pout = out_varint (of_nat (length bs) :: u64) pout @ bs"

subsection \<open>Skipping a value\<close>

definition jump_over :: "cursor \<Rightarrow> u32 \<Rightarrow> cursor rd" where
  "jump_over c wire_type =
     (if wire_type = pb_varint then rd_bind (get_varint c) (\<lambda>(v :: u64, c). Got c)
      else if wire_type = pb_fixed64 then
        if len c < 8 then Refused pberr_ok
        else Got \<lparr>pd = drop 8 (pd c), len = len c - 8\<rparr>
      else if wire_type = pb_length_delimited then
        rd_bind (get_varint c) (\<lambda>(datalen :: u64, c).
          let n = sint (ucast datalen :: u32)
          in if len c < n then Refused pberr_ok
             else if int_ok (len c - n)
               then Got \<lparr>pd = drop (unat datalen) (pd c), len = len c - n\<rparr>
               else Fault)
      else if wire_type = pb_fixed32 then
        if len c < 4 then Refused pberr_ok
        else Got \<lparr>pd = drop 4 (pd c), len = len c - 4\<rparr>
      else Refused pberr_decode)"

subsection \<open>Lemmas\<close>

lemma get_fixed_eq:
  assumes "8 dvd LENGTH('a::len)" and "int (LENGTH('a) div 8) \<le> len c" and "LENGTH('a) div 8 \<le> length (pd c)"
  shows "get_fixed tg c =
    Got (of_le (take (LENGTH('a) div 8) (pd c)) :: 'a word,
         \<lparr>pd = drop (LENGTH('a) div 8) (pd c), len = len c - int (LENGTH('a) div 8)\<rparr>)"
  using assms by (simp add: get_fixed_def load_int_def bswap_of_le_rev Let_def)

lemma out_fixed_eq:
  assumes "8 dvd LENGTH('a::len)"
  shows "out_fixed tg (v :: 'a word) pout = pout @ le_bytes v"
  using assms by (simp add: out_fixed_def store_int_def le_bytes_bswap)

lemma get_fixed_out_fixed:
  assumes "8 dvd LENGTH('a::len)" and "int (LENGTH('a) div 8) \<le> k"
  shows "get_fixed tg \<lparr>pd = out_fixed tg' (v :: 'a word) [] @ rest, len = k\<rparr> =
    Got (v, \<lparr>pd = rest, len = k - int (LENGTH('a) div 8)\<rparr>)"
  using assms by (simp add: get_fixed_eq out_fixed_eq)

interpretation fixed32: codec "\<lambda>v :: u32. out_fixed tg v []" "get_fixed tg'" for tg tg'
  by unfold_locales (simp_all add: get_fixed_eq out_fixed_eq flip: length_greater_0_conv)

interpretation fixed64: codec "\<lambda>v :: u64. out_fixed tg v []" "get_fixed tg'" for tg tg'
  by unfold_locales (simp_all add: get_fixed_eq out_fixed_eq flip: length_greater_0_conv)

lemma get_fixed_safe: "in_step c \<Longrightarrow> get_fixed tg c \<noteq> (Fault :: ('a::len word \<times> cursor) rd)"
  by (auto simp: get_fixed_def in_step_def Let_def)

lemma get_fixed_moved:
  assumes "8 \<le> LENGTH('a::len)" and "get_fixed tg c = Got (v :: 'a word, c')"
  shows "moved c c'"
proof -
  let ?n = "LENGTH('a) div 8"
  have "0 < ?n" using assms(1) by (simp add: div_greater_zero_iff)
  with assms(2) show ?thesis
    unfolding moved_def
    by (intro exI [of _ "take ?n (pd c)"]) (auto simp: get_fixed_def Let_def min_def split: if_splits)
qed

lemma word_7: "(7 :: 'a::len word) = mask 3"
  by (simp add: mask_eq_exp_minus_1)

lemma take_bit_unat_less: "unat (w :: 'a::len word) < 2 ^ n \<Longrightarrow> take_bit n w = w"
  by (metis take_bit_nat_eq_self unsigned_take_bit_eq unsigned_word_eqI)

lemma key_split:
  assumes "field_number < (2 ^ 29 :: u32)" and "wire_type < 8"
  shows "drop_bit 3 (push_bit 3 field_number OR (wire_type AND 7)) = field_number"
    and "(push_bit 3 field_number OR (wire_type AND 7)) AND 7 = wire_type"
proof -
  have f: "take_bit 29 field_number = field_number" and w: "take_bit 3 wire_type = wire_type"
    using assms by (auto intro!: take_bit_unat_less simp: word_less_nat_alt)
  have "drop_bit 3 (push_bit 3 field_number OR (wire_type AND 7)) = take_bit 29 field_number"
    unfolding word_7 by (rule bit_word_eqI) (auto simp: bit_simps)
  then show "drop_bit 3 (push_bit 3 field_number OR (wire_type AND 7)) = field_number"
    by (simp only: f)
  have "(push_bit 3 field_number OR (wire_type AND 7)) AND 7 = take_bit 3 wire_type"
    unfolding word_7 by (rule bit_word_eqI) (auto simp: bit_simps)
  then show "(push_bit 3 field_number OR (wire_type AND 7)) AND 7 = wire_type"
    by (simp only: w)
qed

lemma get_key_out_key:
  assumes "field_number < 2 ^ 29" and "wire_type < 8"
    and "int (length (out_key field_number wire_type [])) \<le> k"
  shows "get_key \<lparr>pd = out_key field_number wire_type [] @ rest, len = k\<rparr> =
    Got (field_number, wire_type,
         \<lparr>pd = rest, len = k - int (length (out_key field_number wire_type []))\<rparr>)"
  unfolding get_key_def out_key_def
  using varint.dec_enc [OF assms(3) [unfolded out_key_def]] key_split [OF assms(1,2)]
  by simp

lemma out_key_append: "out_key f w pout = pout @ out_key f w []"
  by (simp add: out_key_def out_varint_leb128)

lemma out_length_delimited_append: "out_length_delimited bs pout = pout @ out_length_delimited bs []"
  by (simp add: out_length_delimited_def out_varint_leb128)

lemma sint_of_nat_u32: "n < 2 ^ 31 \<Longrightarrow> sint (of_nat n :: u32) = int n"
  by (simp add: signed_of_nat signed_take_bit_int_eq_self)

lemma sint_u32: "unat w < 2 ^ 31 \<Longrightarrow> sint (w :: u32) = int (unat w)"
  using sint_of_nat_u32 [of "unat w"] by simp

text \<open>A length below \<open>2 ^ 31\<close> is read back: the writer's is a 64-bit varint, the reader's a 32-bit
  one.\<close>

lemma get_length_delimited_out:
  assumes "length bs < 2 ^ 31" and "int (length (out_length_delimited bs [])) \<le> k" and "int_ok k"
  shows "get_length_delimited \<lparr>pd = out_length_delimited bs [] @ rest, len = k\<rparr> =
    Got ((bs @ rest, length bs),
         \<lparr>pd = rest, len = k - int (length (out_length_delimited bs []))\<rparr>)"
proof -
  let ?n = "length bs"
  have len: "out_length_delimited bs [] = leb128 ?n @ bs"
    using assms(1) by (simp add: out_length_delimited_def out_varint_leb128 unat_of_nat)
  have "get_varint \<lparr>pd = leb128 ?n @ (bs @ rest), len = k\<rparr> =
      Got (of_nat ?n :: u32, \<lparr>pd = bs @ rest, len = k - int (length (leb128 ?n))\<rparr>)"
    using assms by (intro get_varint_leb128) (simp_all add: len)
  moreover have "sint (of_nat ?n :: u32) = int ?n"
    using assms(1) by (rule sint_of_nat_u32)
  moreover have "uint (of_nat ?n :: u32) = int ?n" "unat (of_nat ?n :: u32) = ?n"
    using assms(1) by (simp_all add: unat_of_nat flip: uint_nat) (simp add: uint_nat unat_of_nat)
  moreover have "int ?n \<le> k - int (length (leb128 ?n))"
    using assms(2) by (simp add: len)
  moreover have "int_ok (k - int (length (leb128 ?n)) - int ?n)"
    using assms(2,3) by (auto simp: len intro: int_ok_between)
  ultimately show ?thesis
    by (simp add: get_length_delimited_def len)
qed

subsection \<open>Reads and the buffer\<close>

lemma get_key_moved: "get_key c = Got (f, w, c') \<Longrightarrow> moved c c'"
  by (auto simp: get_key_def rd_bind_eq_Got split: prod.splits dest: get_varint_moved)

lemma get_key_safe: "in_step c \<Longrightarrow> get_key c \<noteq> Fault"
  by (auto simp: get_key_def rd_bind_eq_Fault get_varint_safe)

text \<open>
  The regions \<open>get_length_delimited\<close> hands out lie in the buffer, unless the length on the wire is
  \<open>2 ^ 31\<close> or more: read as a negative \<open>int\<close>, it passes the check.
\<close>

lemma get_length_delimited_region:
  assumes "in_step c" and "get_length_delimited c = Got (r, c')"
  shows "snd r < 2 ^ 31 \<and> moved c c' \<and> snd r \<le> length (fst r) \<or> 2 ^ 31 \<le> snd r \<and> length (fst r) < 2 ^ 31"
proof -
  obtain ul :: u32 and c1 where v: "get_varint c = Got (ul, c1)" and le: "sint ul \<le> len c1"
    and r: "r = (pd c1, unat ul)"
    and c': "c' = \<lparr>pd = drop (unat ul) (pd c1), len = int32 (len c1 - uint ul)\<rparr>"
    using assms(2) by (auto simp: get_length_delimited_def rd_bind_eq_Got split: if_splits)
  obtain n where n: "unat ul = n" "uint ul = int n" by simp
  have m: "moved c c1" using v by (rule get_varint_moved)
  then have i: "len c1 = int (length (pd c1))" "int_ok (len c1)"
    using assms(1) moved_in_step by (auto simp: in_step_def)
  show ?thesis
  proof (cases "n < 2 ^ 31")
    case True
    then have fits: "n \<le> length (pd c1)"
      using le i n sint_u32 [of ul] by simp
    obtain used where used: "used \<noteq> []" "pd c = used @ pd c1" "len c1 = len c - int (length used)"
      using m by (auto simp: moved_def)
    have "int_ok (len c1 - int n)"
      using i(2) by (rule int_ok_between) (use i(1) fits in simp_all)
    then have "len c' = len c1 - int n" by (simp add: c' n)
    then have "moved c c'"
      unfolding moved_def using used fits
      by (intro exI [of _ "used @ take n (pd c1)"]) (simp add: c' n)
    with True fits show ?thesis by (simp add: r n)
  next
    case False
    then show ?thesis using i by (simp add: r n int_ok_def)
  qed
qed

lemma get_length_delimited_safe: "in_step c \<Longrightarrow> get_length_delimited c \<noteq> Fault"
  by (auto simp: get_length_delimited_def rd_bind_eq_Fault get_varint_safe split: if_splits)

lemma get_length_delimited_shorter:
  "get_length_delimited c = Got (r, c') \<Longrightarrow> length (pd c') < length (pd c)"
  by (auto simp: get_length_delimited_def rd_bind_eq_Got dest!: get_varint_moved moved_shorter split: if_splits)

end
