(* ===== verification/Pb_Fields.thy ===== *)
theory Pb_Fields
  imports Wire
begin

text \<open>
  \<open>msg_protoc3\<close> of \<open>ec_protobuf.h\<close>: one field of a message, read, written and measured.

  A writer takes the output buffer and \<open>_lasterr\<close> (an \<open>ostate\<close>) and returns the C++ function's
  \<open>bool\<close> with both updated; \<open>&&\<close> between writers is \<open>and_then\<close>, which stops at the first \<open>false\<close>.
  A \<open>const char *\<close> is the list of its bytes before the terminating NUL (\<open>c_str\<close>), the pair of a
  pointer and a size the list of those bytes. The width of \<open>'a\<close> is that of \<open>utype\<close>, 32 or 64.
\<close>

record ostate =
  obuf :: "byte list"
  lasterr :: pberr

type_synonym writer = "ostate \<Rightarrow> bool \<times> ostate"

definition and_then :: "writer \<Rightarrow> writer \<Rightarrow> writer" where
  "and_then f g st = (case f st of (ok, st') \<Rightarrow> if ok then g st' else (False, st'))"

definition append_with :: "(byte list \<Rightarrow> byte list) \<Rightarrow> writer" where
  "append_with f st = (True, st\<lparr>obuf := f (obuf st)\<rparr>)"

definition c_str :: "string \<Rightarrow> byte list" where
  "c_str s = takeWhile (\<lambda>b. b \<noteq> 0) (bytes_of s)"

subsection \<open>Writing a field\<close>

definition out_var :: "u32 \<Rightarrow> 'a::len word \<Rightarrow> bool \<Rightarrow> writer" where
  "out_var fid v zigzag =
     and_then (append_with (out_key fid pb_varint))
       (append_with (out_varint (if zigzag then zigzag_encode v else v)))"

definition out_str :: "u32 \<Rightarrow> byte list \<Rightarrow> writer" where
  "out_str fid s st =
     (if s = [] then (True, st)
      else if \<not> isutf8 s then (False, st\<lparr>lasterr := pberr_str_non_utf8\<rparr>)
      else and_then (append_with (out_key fid pb_length_delimited))
             (append_with (out_length_delimited s)) st)"

definition out_str_sized :: "u32 \<Rightarrow> byte list \<Rightarrow> writer" where
  "out_str_sized fid s st =
     (if s = [] \<or> hd s = 0 then (True, st)
      else if \<not> isutf8 s then (False, st\<lparr>lasterr := pberr_str_non_utf8\<rparr>)
      else and_then (append_with (out_key fid pb_length_delimited))
             (append_with (out_length_delimited s)) st)"

definition out_cls :: "u32 \<Rightarrow> byte list \<Rightarrow> writer" where
  "out_cls fid bs st =
     (if bs = [] then (True, st)
      else and_then (append_with (out_key fid pb_length_delimited))
             (append_with (out_length_delimited bs)) st)"

definition out_cls_head :: "u32 \<Rightarrow> u64 \<Rightarrow> writer" where
  "out_cls_head fid n st =
     (if n = 0 then (True, st)
      else and_then (append_with (out_key fid pb_length_delimited))
             (append_with (out_varint n)) st)"

definition out_fixed32 :: "target \<Rightarrow> u32 \<Rightarrow> u32 \<Rightarrow> writer" where
  "out_fixed32 tg fid v =
     and_then (append_with (out_key fid pb_fixed32)) (append_with (out_fixed tg v))"

definition out_fixed64 :: "target \<Rightarrow> u32 \<Rightarrow> u64 \<Rightarrow> writer" where
  "out_fixed64 tg fid v =
     and_then (append_with (out_key fid pb_fixed64)) (append_with (out_fixed tg v))"

subsection \<open>Measuring a field\<close>

definition size_key :: "u32 \<Rightarrow> u32 \<Rightarrow> nat" where
  "size_key fid wire_type = size_varint (push_bit 3 fid OR (wire_type AND 7))"

definition size_length_delimited :: "nat \<Rightarrow> nat" where
  "size_length_delimited n = (if n \<noteq> 0 then size_varint (of_nat n :: u64) + n else 0)"

definition size_var :: "u32 \<Rightarrow> 'a::len word \<Rightarrow> bool \<Rightarrow> nat" where
  "size_var fid v zigzag =
     (if zigzag then size_key fid pb_varint + size_varint (zigzag_encode v)
      else size_key fid pb_varint + size_varint v)"

definition size_fixed :: "u32 \<Rightarrow> 'a::len word \<Rightarrow> nat" where
  "size_fixed fid v =
     (if LENGTH('a) = 32 then size_key fid 5 + 4
      else if LENGTH('a) = 64 then size_key fid 1 + 8 else 0)"

definition size_str :: "u32 \<Rightarrow> byte list \<Rightarrow> nat" where
  "size_str fid s =
     (if s = [] then 0 else size_key fid pb_length_delimited + size_length_delimited (length s))"

definition size_str_sized :: "u32 \<Rightarrow> byte list \<Rightarrow> nat" where
  "size_str_sized fid s =
     (if s = [] \<or> hd s = 0 then 0
      else size_key fid pb_length_delimited + size_length_delimited (length s))"

definition size_cls :: "u32 \<Rightarrow> nat \<Rightarrow> nat" where
  "size_cls fid n =
     (if n = 0 then 0 else size_key fid pb_length_delimited + size_length_delimited n)"

subsection \<open>Reading a field\<close>

text \<open>
  \<open>p_bytes\<close> copies into a buffer of \<open>outlen\<close> bytes and returns the copied bytes and the new
  \<open>outlen\<close>; its last comparison uses the \<open>outlen\<close> just assigned. \<open>p_str\<close> returns its \<open>bool\<close> beside
  what it stored: the string is cut to \<open>outlen - 1\<close> bytes before that \<open>bool\<close> says so.
\<close>

definition p_bytes :: "u32 \<Rightarrow> cursor \<Rightarrow> nat \<Rightarrow> (byte list \<times> nat \<times> cursor) rd" where
  "p_bytes wire_type c outlen =
     (if wire_type \<noteq> pb_length_delimited then Refused pberr_ok
      else rd_bind (get_length_delimited c) (\<lambda>((ptmp, tmpsize), c).
        rd_bind (read_region (ptmp, if tmpsize \<le> outlen then tmpsize else outlen)) (\<lambda>pout.
          let outlen = tmpsize
          in if tmpsize \<le> outlen then Got (pout, outlen, c) else Refused pberr_ok)))"

definition p_str :: "u32 \<Rightarrow> cursor \<Rightarrow> nat \<Rightarrow> (bool \<times> byte list \<times> cursor) rd" where
  "p_str wire_type c outlen =
     (if wire_type \<noteq> pb_length_delimited then Refused pberr_ok
      else rd_bind (get_length_delimited c) (\<lambda>((ptmp, tmpsize), c).
        if outlen = 0 then Fault
        else let zlen = (if tmpsize < outlen then tmpsize else outlen - 1)
             in rd_bind (read_region (ptmp, zlen)) (\<lambda>pout.
                  if \<not> isutf8 pout then Refused pberr_str_non_utf8
                  else Got (tmpsize < outlen, pout, c))))"

definition p_cls :: "u32 \<Rightarrow> cursor \<Rightarrow> (region \<times> cursor) rd" where
  "p_cls wire_type c =
     (if pb_length_delimited = wire_type then get_length_delimited c else Refused pberr_ok)"

definition p_cls_append :: "u32 \<Rightarrow> cursor \<Rightarrow> byte list \<Rightarrow> (byte list \<times> cursor) rd" where
  "p_cls_append wire_type c pout =
     (if wire_type \<noteq> pb_length_delimited then Refused pberr_ok
      else rd_bind (get_length_delimited c) (\<lambda>(r, c).
        rd_bind (read_region r) (\<lambda>bs. Got (pout @ bs, c))))"

definition p_var :: "u32 \<Rightarrow> cursor \<Rightarrow> bool \<Rightarrow> ('a::len word \<times> cursor) rd" where
  "p_var wire_type c zigzag =
     (if pb_varint \<noteq> wire_type then Refused pberr_ok
      else rd_bind (get_varint c) (\<lambda>(v :: 'a word, c).
        Got (if zigzag then zigzag_decode v else v, c)))"

definition p_fixed32 :: "target \<Rightarrow> u32 \<Rightarrow> cursor \<Rightarrow> (u32 \<times> cursor) rd" where
  "p_fixed32 tg wire_type c =
     (if pb_fixed32 = wire_type then get_fixed tg c else Refused pberr_ok)"

definition p_fixed64 :: "target \<Rightarrow> u32 \<Rightarrow> cursor \<Rightarrow> (u64 \<times> cursor) rd" where
  "p_fixed64 tg wire_type c =
     (if pb_fixed64 = wire_type then get_fixed tg c else Refused pberr_ok)"

subsection \<open>What the writers append\<close>

text \<open>The reference encoding of a length-delimited field; an empty one is left out.\<close>

definition blob_field :: "u32 \<Rightarrow> byte list \<Rightarrow> byte list" where
  "blob_field fid bs =
     (if bs = [] then []
      else out_key fid pb_length_delimited [] @ out_length_delimited bs [])"

definition var_field :: "u32 \<Rightarrow> 'a::len word \<Rightarrow> byte list" where
  "var_field fid v = out_key fid pb_varint [] @ out_varint v []"

lemma and_then_append_with:
  "and_then (append_with f) (append_with g) st = (True, st\<lparr>obuf := g (f (obuf st))\<rparr>)"
  by (simp add: and_then_def append_with_def)

lemma out_varint_append: "out_varint v pout = pout @ out_varint v []"
  by (simp add: out_varint_leb128)

lemma out_var_eq:
  "out_var fid v zigzag st =
     (True, st\<lparr>obuf := obuf st @ var_field fid (if zigzag then zigzag_encode v else v)\<rparr>)"
  by (simp add: out_var_def and_then_append_with var_field_def out_key_append [of _ _ "obuf st"]
      out_varint_append [of _ "obuf st @ _"])

lemma out_str_eq:
  "out_str fid s st =
     (if isutf8 s then (True, st\<lparr>obuf := obuf st @ blob_field fid s\<rparr>)
      else (False, st\<lparr>lasterr := pberr_str_non_utf8\<rparr>))"
  by (auto simp: out_str_def and_then_append_with blob_field_def out_key_append [of _ _ "obuf st"]
      out_length_delimited_append [of _ "obuf st @ _"] isutf8_def)

lemma out_cls_eq: "out_cls fid bs st = (True, st\<lparr>obuf := obuf st @ blob_field fid bs\<rparr>)"
  by (auto simp: out_cls_def and_then_append_with blob_field_def out_key_append [of _ _ "obuf st"]
      out_length_delimited_append [of _ "obuf st @ _"])

lemma size_key_eq: "size_key fid w = length (out_key fid w [])"
  by (simp add: size_key_def out_key_def size_varint_leb128 out_varint_leb128)

lemma size_var_eq: "size_var fid v zigzag = length (var_field fid (if zigzag then zigzag_encode v else v))"
  by (simp add: size_var_def var_field_def size_key_eq size_varint_leb128 out_varint_leb128)

lemma size_length_delimited_eq:
  "bs \<noteq> [] \<Longrightarrow> size_length_delimited (length bs) = length (out_length_delimited bs [])"
  by (simp add: size_length_delimited_def out_length_delimited_def size_varint_leb128 out_varint_leb128)

lemma size_str_eq: "size_str fid s = length (blob_field fid s)"
  by (simp add: size_str_def blob_field_def size_key_eq size_length_delimited_eq)

lemma size_cls_eq: "size_cls fid (length bs) = length (blob_field fid bs)"
  by (simp add: size_cls_def blob_field_def size_key_eq size_length_delimited_eq)

end
