(* ===== verification/Pb_Message.thy ===== *)
theory Pb_Message
  imports Pb_Fields
begin

text \<open>
  The parse loop of \<open>cls_protoc3\<close> (\<open>ec_protobuf.h\<close>), over the virtual functions a message class
  overrides. \<open>'m\<close> is the state of the message object; a handler that returns \<open>true\<close> is \<open>Got\<close> of the
  new state. The locale \<open>message_handlers\<close> is what a class has to promise for \<open>parse\<close> to stay
  inside the buffer: its handlers read nothing but the region they are given.
\<close>

record 'm handlers =
  on_reset :: 'm
  on_cls :: "u32 \<Rightarrow> region \<Rightarrow> 'm \<Rightarrow> 'm rd"
  on_var :: "u32 \<Rightarrow> u64 \<Rightarrow> 'm \<Rightarrow> 'm rd"
  on_fix32 :: "u32 \<Rightarrow> u32 \<Rightarrow> 'm \<Rightarrow> 'm rd"
  on_fix64 :: "u32 \<Rightarrow> u64 \<Rightarrow> 'm \<Rightarrow> 'm rd"

text \<open>The body of the loop after the key: the \<open>switch\<close> on the wire type.\<close>

definition parse_field ::
  "target \<Rightarrow> 'm handlers \<Rightarrow> u32 \<Rightarrow> u32 \<Rightarrow> cursor \<Rightarrow> 'm \<Rightarrow> ('m \<times> cursor) rd" where
  "parse_field tg h field_number wire_type c m =
     (if wire_type = pb_varint then
        rd_bind (get_varint c) (\<lambda>(u64, c).
          rd_bind (on_var h field_number u64 m) (\<lambda>m. Got (m, c)))
      else if wire_type = pb_length_delimited then
        rd_bind (p_cls wire_type c) (\<lambda>(r, c).
          rd_bind (on_cls h field_number r m) (\<lambda>m. Got (m, c)))
      else if wire_type = pb_fixed32 then
        rd_bind (p_fixed32 tg wire_type c) (\<lambda>(u32, c).
          rd_bind (on_fix32 h field_number u32 m) (\<lambda>m. Got (m, c)))
      else if wire_type = pb_fixed64 then
        rd_bind (p_fixed64 tg wire_type c) (\<lambda>(u64, c).
          rd_bind (on_fix64 h field_number u64 m) (\<lambda>m. Got (m, c)))
      else rd_bind (jump_over c wire_type) (\<lambda>c. Got (m, c)))"

lemma jump_over_shorter: "jump_over c w = Got c' \<Longrightarrow> length (pd c') \<le> length (pd c)"
  by (auto simp: jump_over_def rd_bind_eq_Got Let_def split: if_splits
      dest!: get_varint_moved moved_shorter)

lemma parse_field_shorter:
  "parse_field tg h f w c m = Got (m', c') \<Longrightarrow> length (pd c') \<le> length (pd c)"
  by (auto simp: parse_field_def rd_bind_eq_Got p_cls_def p_fixed32_def p_fixed64_def
      split: if_splits
      dest!: get_varint_moved moved_shorter get_length_delimited_shorter jump_over_shorter
      get_fixed_moved [rotated])

function parse_loop :: "target \<Rightarrow> 'm handlers \<Rightarrow> cursor \<Rightarrow> 'm \<Rightarrow> 'm rd" where
  "parse_loop tg h c m =
     rd_bind (get_key c) (\<lambda>(field_number, wire_type, c).
       rd_bind (parse_field tg h field_number wire_type c m) (\<lambda>(m, c).
         if 0 < len c then parse_loop tg h c m
         else if len c = 0 then Got m else Refused pberr_ok))"
  by pat_completeness auto
termination
  by (relation "measure (\<lambda>(tg, h, c, m). length (pd c))")
    (auto dest!: get_key_moved moved_shorter parse_field_shorter)

declare parse_loop.simps [simp del]

definition parse :: "target \<Rightarrow> 'm handlers \<Rightarrow> byte list \<Rightarrow> 'm rd" where
  "parse tg h msg =
     (if msg = [] then Got (on_reset h)
      else parse_loop tg h \<lparr>pd = msg, len = int32 (int (length msg))\<rparr> (on_reset h))"

subsection \<open>The loop on the bytes of one field\<close>


definition parse_rest :: "target \<Rightarrow> 'm handlers \<Rightarrow> cursor \<Rightarrow> 'm \<Rightarrow> 'm rd" where
  "parse_rest tg h c m =
     (if 0 < len c then parse_loop tg h c m else if len c = 0 then Got m else Refused pberr_ok)"

lemma parse_loop_rest:
  "parse_loop tg h c m =
     rd_bind (get_key c) (\<lambda>(field_number, wire_type, c).
       rd_bind (parse_field tg h field_number wire_type c m) (\<lambda>(m, c). parse_rest tg h c m))"
  by (simp add: parse_loop.simps parse_rest_def cong: rd_bind_cong)

lemma get_key_at_bytes:
  assumes "fid < 2 ^ 29" and "w < 8"
  shows "get_key (at_bytes (out_key fid w [] @ rest)) = Got (fid, w, at_bytes rest)"
  using get_key_out_key [OF assms, of "int (length (out_key fid w [] @ rest))" rest]
  by (simp add: at_bytes_def)

text \<open>A varint field, written at 32 bits and read at 64.\<close>

lemma get_varint_widened:
  "get_varint (at_bytes (out_varint (v :: u32) [] @ rest)) = Got (ucast v :: u64, at_bytes rest)"
proof -
  have "unat v < 2 ^ LENGTH(64)"
    using unsigned_less [of v, where 'a = nat] by simp
  then show ?thesis
    using get_varint_leb128 [of "unat v" "int (length (leb128 (unat v) @ rest))" rest, where 'a = 64]
    by (simp add: out_varint_leb128 at_bytes_def unsigned_of_nat)
qed

lemma parse_loop_var_field:
  assumes "fid < 2 ^ 29"
  shows "parse_loop tg h (at_bytes (var_field fid (v :: u32) @ rest)) m =
    rd_bind (on_var h fid (ucast v) m) (\<lambda>m. parse_rest tg h (at_bytes rest) m)"
  using assms
  by (cases "on_var h fid (ucast v) m")
    (simp_all add: parse_loop_rest var_field_def get_key_at_bytes parse_field_def get_varint_widened)

lemma get_length_delimited_at_bytes:
  assumes "int_ok (int (length (out_length_delimited bs [] @ rest)))"
  shows "get_length_delimited (at_bytes (out_length_delimited bs [] @ rest)) =
    Got ((bs @ rest, length bs), at_bytes rest)"
proof -
  have "length bs < 2 ^ 31"
    using assms by (simp add: int_ok_def out_length_delimited_def)
  then show ?thesis
    using assms get_length_delimited_out [of bs "int (length (out_length_delimited bs [] @ rest))" rest]
    by (simp add: at_bytes_def)
qed

lemma parse_loop_blob_field:
  assumes "fid < 2 ^ 29" and "bs \<noteq> []" and "int_ok (int (length (blob_field fid bs @ rest)))"
  shows "parse_loop tg h (at_bytes (blob_field fid bs @ rest)) m =
    rd_bind (on_cls h fid (bs @ rest, length bs) m) (\<lambda>m. parse_rest tg h (at_bytes rest) m)"
proof -
  have "int_ok (int (length (out_length_delimited bs [] @ rest)))"
    using assms(2,3) by (auto simp: blob_field_def int_ok_def)
  then show ?thesis using assms(1,2)
    by (cases "on_cls h fid (bs @ rest, length bs) m")
      (simp_all add: parse_loop_rest blob_field_def get_key_at_bytes parse_field_def p_cls_def
        get_length_delimited_at_bytes)
qed

lemma parse_rest_field:
  assumes "fld \<noteq> []"
  shows "parse_rest tg h (at_bytes (fld @ rest)) m = parse_loop tg h (at_bytes (fld @ rest)) m"
  using assms by (cases fld) (simp_all add: parse_rest_def)

lemma parse_rest_Nil [simp]: "parse_rest tg h (at_bytes []) m = Got m"
  by (simp add: parse_rest_def)

lemma var_field_nonempty [simp]: "var_field fid v \<noteq> []"
  by (simp add: var_field_def out_varint_leb128)

lemma parse_rest_var_field:
  assumes "fid < 2 ^ 29"
  shows "parse_rest tg h (at_bytes (var_field fid (v :: u32) @ rest)) m =
    rd_bind (on_var h fid (ucast v) m) (\<lambda>m. parse_rest tg h (at_bytes rest) m)"
  using parse_loop_var_field [OF assms] by (simp add: parse_rest_field)

text \<open>An absent field leaves the message as it is; so does a handler that stores the empty bytes.\<close>

lemma parse_rest_blob_field:
  assumes "fid < 2 ^ 29" and "int_ok (int (length (blob_field fid bs @ rest)))"
    and "on_cls h fid (bs @ rest, length bs) m = Got m'" and "bs = [] \<Longrightarrow> m' = m"
  shows "parse_rest tg h (at_bytes (blob_field fid bs @ rest)) m = parse_rest tg h (at_bytes rest) m'"
proof (cases "bs = []")
  case True
  with assms(4) show ?thesis by (simp add: blob_field_def)
next
  case False
  then have "blob_field fid bs \<noteq> []" by (simp add: blob_field_def out_key_def out_varint_leb128)
  then show ?thesis
    using parse_loop_blob_field [OF assms(1) False assms(2), of tg h m] assms(3)
    by (simp add: parse_rest_field)
qed

lemma parse_eq_parse_rest:
  assumes "int_ok (int (length msg))"
  shows "parse tg h msg = parse_rest tg h (at_bytes msg) (on_reset h)"
  using assms by (simp add: parse_def parse_rest_def at_bytes_def)

subsection \<open>The contract of a message class\<close>

text \<open>\<open>huge_length bs\<close>: somewhere in \<open>bs\<close> a 32-bit varint of \<open>2 ^ 31\<close> or more can be read.\<close>

definition huge_length :: "byte list \<Rightarrow> bool" where
  "huge_length bs \<longleftrightarrow>
     (\<exists>pre suf ul c. bs = pre @ suf \<and> get_varint (at_bytes suf) = Got (ul :: u32, c) \<and> 2 ^ 31 \<le> unat ul)"

lemma huge_length_append: "huge_length bs \<Longrightarrow> huge_length (pre @ bs)"
  unfolding huge_length_def by (metis append.assoc)

lemma moved_huge_length: "moved c c' \<Longrightarrow> huge_length (pd c') \<Longrightarrow> huge_length (pd c)"
  by (auto simp: moved_def huge_length_append)

lemma get_length_delimited_huge:
  assumes "in_step c" and "get_length_delimited c = Got (r, c')" and "2 ^ 31 \<le> snd r"
  shows "huge_length (pd c)"
proof -
  obtain ul :: u32 and c1 where "get_varint c = Got (ul, c1)" "snd r = unat ul"
    using assms(2) by (auto simp: get_length_delimited_def rd_bind_eq_Got split: if_splits)
  then have "get_varint (at_bytes (pd c)) = Got (ul, c1) \<and> 2 ^ 31 \<le> unat ul"
    using assms(1,3) in_step_eq_at_bytes [OF assms(1)] by metis
  then show ?thesis unfolding huge_length_def by (metis append_Nil)
qed

locale message_handlers =
  fixes h :: "'m handlers"
  assumes on_cls_safe: "snd r \<le> length (fst r) \<Longrightarrow> on_cls h f r m \<noteq> Fault"
    and on_var_safe: "on_var h f v m \<noteq> Fault"
    and on_fix32_safe: "on_fix32 h f x m \<noteq> Fault"
    and on_fix64_safe: "on_fix64 h f y m \<noteq> Fault"
begin

lemma parse_field_safe:
  assumes "in_step c" and "\<not> huge_length (pd c)"
  shows "parse_field tg h f w c m \<noteq> Fault"
proof -
  have region: "snd r \<le> length (fst r)" if "get_length_delimited c = Got (r, c')" for r c'
    using get_length_delimited_region [OF assms(1) that] get_length_delimited_huge [OF assms(1) that]
      assms(2) by auto
  then show ?thesis
    using assms(1)
    by (auto simp: parse_field_def rd_bind_eq_Fault p_cls_def p_fixed32_def p_fixed64_def
        jump_over_def get_length_delimited_safe get_varint_safe get_fixed_safe on_var_safe
        on_fix32_safe on_fix64_safe on_cls_safe)
qed

lemma parse_field_moved:
  assumes "in_step c" and "\<not> huge_length (pd c)" and "parse_field tg h f w c m = Got (m', c')"
  shows "moved c c'"
proof -
  have region: "moved c c'" if "get_length_delimited c = Got (r, c')" for r c'
    using get_length_delimited_region [OF assms(1) that] get_length_delimited_huge [OF assms(1) that]
      assms(2) by auto
  show ?thesis
    using assms(3)
    by (auto simp: parse_field_def rd_bind_eq_Got p_cls_def p_fixed32_def p_fixed64_def
        jump_over_def split: if_splits dest: region get_varint_moved get_fixed_moved [rotated])
qed

lemma parse_loop_safe:
  "in_step c \<Longrightarrow> \<not> huge_length (pd c) \<Longrightarrow> parse_loop tg h c m \<noteq> Fault"
proof (induction "length (pd c)" arbitrary: c m rule: less_induct)
  case less
  show ?case
  proof
    assume "parse_loop tg h c m = Fault"
    then obtain f w c1 where key: "get_key c = Got (f, w, c1)"
      and rest: "rd_bind (parse_field tg h f w c1 m) (\<lambda>(m, c). parse_rest tg h c m) = Fault"
      using get_key_safe [OF less.prems(1)] by (auto simp: parse_loop_rest rd_bind_eq_Fault)
    have m1: "moved c c1" using key by (rule get_key_moved)
    then have i1: "in_step c1" and h1: "\<not> huge_length (pd c1)"
      using less.prems moved_in_step moved_huge_length by blast+
    from rest obtain m' c2 where fld: "parse_field tg h f w c1 m = Got (m', c2)"
      and fault: "parse_loop tg h c2 m' = Fault"
      using parse_field_safe [OF i1 h1]
      by (auto simp: rd_bind_eq_Fault parse_rest_def split: if_splits)
    have "moved c1 c2" using i1 h1 fld by (rule parse_field_moved)
    with m1 have m2: "moved c c2" by (rule moved_trans)
    then show False
      using fault less.hyps [OF moved_shorter] less.prems moved_in_step moved_huge_length by blast
  qed
qed

lemma parse_fault_huge:
  assumes "parse tg h msg = Fault" and "length msg < 2 ^ 31"
  shows "huge_length msg"
proof -
  have ok: "int_ok (int (length msg))" using assms(2) by (simp add: int_ok_def)
  with assms(1) have "parse_loop tg h (at_bytes msg) (on_reset h) = Fault"
    by (auto simp: parse_def at_bytes_def split: if_splits)
  then show ?thesis
    using parse_loop_safe [of "at_bytes msg"] ok by auto
qed

end

end
