(* ===== verification/Cast_Message.thy ===== *)
theory Cast_Message
  imports Pb_Message
begin

text \<open>
  \<open>castchannel.h\<close>: \<open>CastMessage\<close>, the one message of the cast protocol, with the handlers it
  overrides and its \<open>size_content\<close> and \<open>out_content\<close>. The two required enums are written ZigZag
  encoded (the \<open>true\<close> argument of \<open>out_var\<close>) and read plain; the destination and the namespace are
  written by the two operands of a \<open>+\<close>.
\<close>

record cast_message =
  protocol_version :: u32
  source_id :: string
  destination_id :: string
  namespace :: string
  payload_type :: u32
  payload_utf8 :: string
  payload_binary :: "byte list"

abbreviation id_protocol_version :: u32 where "id_protocol_version \<equiv> 1"
abbreviation id_source_id :: u32 where "id_source_id \<equiv> 2"
abbreviation id_destination_id :: u32 where "id_destination_id \<equiv> 3"
abbreviation id_namespace :: u32 where "id_namespace \<equiv> 4"
abbreviation id_payload_type :: u32 where "id_payload_type \<equiv> 5"
abbreviation id_payload_utf8 :: u32 where "id_payload_utf8 \<equiv> 6"
abbreviation id_payload_binary :: u32 where "id_payload_binary \<equiv> 7"

abbreviation CASTV2_1_0 :: u32 where "CASTV2_1_0 \<equiv> 0"
abbreviation STRING :: u32 where "STRING \<equiv> 0"
abbreviation BINARY :: u32 where "BINARY \<equiv> 1"

definition cast_reset :: cast_message where
  "cast_reset =
     \<lparr>protocol_version = CASTV2_1_0, source_id = [], destination_id = [], namespace = [],
      payload_type = STRING, payload_utf8 = [], payload_binary = []\<rparr>"

definition cast_size_content :: "cast_message \<Rightarrow> nat" where
  "cast_size_content m =
     size_var id_protocol_version (protocol_version m) True +
     size_str id_source_id (c_str (source_id m)) +
     size_str id_destination_id (c_str (destination_id m)) +
     size_str id_namespace (c_str (namespace m)) +
     size_var id_payload_type (payload_type m) True +
     size_str id_payload_utf8 (c_str (payload_utf8 m)) +
     size_cls id_payload_binary (length (payload_binary m))"

text \<open>\<open>f + g\<close> on two calls that return \<open>bool\<close>, read as a truth value: both are made, in the order the
  compiler chose, and the sum is non-zero when one of them returned \<open>true\<close>.\<close>

definition plus_writers :: "target \<Rightarrow> writer \<Rightarrow> writer \<Rightarrow> writer" where
  "plus_writers tg f g st =
     (if plus_rhs_first tg
      then (case g st of (b, st) \<Rightarrow> case f st of (a, st) \<Rightarrow> (a \<or> b, st))
      else (case f st of (a, st) \<Rightarrow> case g st of (b, st) \<Rightarrow> (a \<or> b, st)))"

definition cast_out_content :: "target \<Rightarrow> cast_message \<Rightarrow> writer" where
  "cast_out_content tg m =
     and_then (out_var id_protocol_version (protocol_version m) True)
    (and_then (out_str id_source_id (c_str (source_id m)))
    (and_then (plus_writers tg (out_str id_destination_id (c_str (destination_id m)))
                               (out_str id_namespace (c_str (namespace m))))
    (and_then (out_var id_payload_type (payload_type m) True)
    (and_then (out_str id_payload_utf8 (c_str (payload_utf8 m)))
              (out_cls id_payload_binary (payload_binary m))))))"

definition cast_on_cls :: "u32 \<Rightarrow> region \<Rightarrow> cast_message \<Rightarrow> cast_message rd" where
  "cast_on_cls field_number r m =
     (if field_number = id_source_id then
        rd_bind (read_region r) (\<lambda>bs. Got (m\<lparr>source_id := string_of bs\<rparr>))
      else if field_number = id_destination_id then
        rd_bind (read_region r) (\<lambda>bs. Got (m\<lparr>destination_id := string_of bs\<rparr>))
      else if field_number = id_namespace then
        rd_bind (read_region r) (\<lambda>bs. Got (m\<lparr>namespace := string_of bs\<rparr>))
      else if field_number = id_payload_utf8 then
        rd_bind (read_region r) (\<lambda>bs. Got (m\<lparr>payload_utf8 := string_of bs\<rparr>))
      else if field_number = id_payload_binary then
        rd_bind (read_region r) (\<lambda>bs. Got (m\<lparr>payload_binary := bs\<rparr>))
      else Refused pberr_ok)"

definition cast_on_var :: "u32 \<Rightarrow> u64 \<Rightarrow> cast_message \<Rightarrow> cast_message rd" where
  "cast_on_var field_number val m =
     (if field_number = id_protocol_version then Got (m\<lparr>protocol_version := ucast val\<rparr>)
      else if field_number = id_payload_type then Got (m\<lparr>payload_type := ucast val\<rparr>)
      else Refused pberr_ok)"

definition cast_on_fix32 :: "u32 \<Rightarrow> u32 \<Rightarrow> cast_message \<Rightarrow> cast_message rd" where
  "cast_on_fix32 field_number pval m = Refused pberr_ok"

definition cast_on_fix64 :: "u32 \<Rightarrow> u64 \<Rightarrow> cast_message \<Rightarrow> cast_message rd" where
  "cast_on_fix64 field_number pval m = Got m"

definition cast_handlers :: "cast_message handlers" where
  "cast_handlers =
     \<lparr>on_reset = cast_reset, on_cls = cast_on_cls, on_var = cast_on_var,
      on_fix32 = cast_on_fix32, on_fix64 = cast_on_fix64\<rparr>"

text \<open>\<open>cls_protoc3::serialize(_Out *)\<close>, \<open>size()\<close> and \<open>parse\<close> on a \<open>CastMessage\<close>.\<close>

definition cast_serialize :: "target \<Rightarrow> cast_message \<Rightarrow> byte list \<Rightarrow> bool \<times> ostate" where
  "cast_serialize tg m pout = cast_out_content tg m \<lparr>obuf = pout, lasterr = pberr_ok\<rparr>"

definition cast_size :: "cast_message \<Rightarrow> nat" where
  "cast_size m = cast_size_content m"

definition cast_parse :: "target \<Rightarrow> byte list \<Rightarrow> cast_message rd" where
  "cast_parse tg msg = parse tg cast_handlers msg"

subsection \<open>The handlers keep their contract\<close>

interpretation cast: message_handlers cast_handlers
  by unfold_locales
    (auto simp: cast_handlers_def cast_on_cls_def cast_on_var_def cast_on_fix32_def
      cast_on_fix64_def read_region_def)

subsection \<open>What is written\<close>

text \<open>\<open>str_field\<close> is the bytes a string field contributes: nothing when the UTF-8 test refuses it.\<close>

definition str_field :: "u32 \<Rightarrow> string \<Rightarrow> byte list" where
  "str_field fid s = (if isutf8 (c_str s) then blob_field fid (c_str s) else [])"

definition cast_bytes :: "target \<Rightarrow> cast_message \<Rightarrow> byte list" where
  "cast_bytes tg m =
     var_field id_protocol_version (zigzag_encode (protocol_version m)) @
     str_field id_source_id (source_id m) @
     (if plus_rhs_first tg
      then str_field id_namespace (namespace m) @ str_field id_destination_id (destination_id m)
      else str_field id_destination_id (destination_id m) @ str_field id_namespace (namespace m)) @
     var_field id_payload_type (zigzag_encode (payload_type m)) @
     str_field id_payload_utf8 (payload_utf8 m) @
     blob_field id_payload_binary (payload_binary m)"

definition cast_writable :: "cast_message \<Rightarrow> bool" where
  "cast_writable m \<longleftrightarrow>
     isutf8 (c_str (source_id m)) \<and>
     (isutf8 (c_str (destination_id m)) \<or> isutf8 (c_str (namespace m))) \<and>
     isutf8 (c_str (payload_utf8 m))"

lemma cast_serialize_result:
  "fst (cast_serialize tg m pout) = cast_writable m"
  by (auto simp: cast_serialize_def cast_out_content_def and_then_def plus_writers_def out_var_eq
      out_str_eq out_cls_eq cast_writable_def)

lemma cast_serialize_bytes:
  "cast_writable m \<Longrightarrow> obuf (snd (cast_serialize tg m pout)) = pout @ cast_bytes tg m"
  by (auto simp: cast_serialize_def cast_out_content_def and_then_def plus_writers_def out_var_eq
      out_str_eq out_cls_eq cast_writable_def cast_bytes_def str_field_def)

subsection \<open>What is read back\<close>


definition cast_clean :: "cast_message \<Rightarrow> bool" where
  "cast_clean m \<longleftrightarrow>
     list_all (\<lambda>s. c_str s = bytes_of s \<and> isutf8 (bytes_of s))
       [source_id m, destination_id m, namespace m, payload_utf8 m]"

definition as_read_back :: "cast_message \<Rightarrow> cast_message" where
  "as_read_back m =
     m\<lparr>protocol_version := zigzag_encode (protocol_version m),
       payload_type := zigzag_encode (payload_type m)\<rparr>"

lemma read_region_all [simp]: "read_region (bs, length bs) = Got bs"
  by (simp add: read_region_def)

lemma read_region_prefix [simp]: "read_region (bs @ rest, length bs) = Got bs"
  by (simp add: read_region_def)

lemma read_region_prefix_str [simp]:
  "read_region (bytes_of s @ rest, length s) = Got (bytes_of s)"
  by (simp add: read_region_def)

lemma cast_handlers_sel [simp]:
  "on_reset cast_handlers = cast_reset" "on_cls cast_handlers = cast_on_cls"
  "on_var cast_handlers = cast_on_var" "on_fix32 cast_handlers = cast_on_fix32"
  "on_fix64 cast_handlers = cast_on_fix64"
  by (simp_all add: cast_handlers_def)

lemma ucast_u32_u64_u32 [simp]: "ucast (ucast (v :: u32) :: u64) = v"
  by (simp add: unsigned_ucast_eq take_bit_word_eq_self)

lemma str_field_clean: "c_str s = bytes_of s \<Longrightarrow> isutf8 (bytes_of s) \<Longrightarrow> str_field fid s = blob_field fid (bytes_of s)"
  by (simp add: str_field_def)

text \<open>Reading one field back: the rest is parsed with that field set.\<close>

lemma read_back_blob:
  assumes "length (blob_field fid bs @ rest) < 2 ^ 31" and "fid < 2 ^ 29"
    and "cast_on_cls fid (bs @ rest, length bs) m = Got m'" and "bs = [] \<Longrightarrow> m' = m"
  shows "parse_rest tg cast_handlers (at_bytes (blob_field fid bs @ rest)) m =
    parse_rest tg cast_handlers (at_bytes rest) m'"
  by (rule parse_rest_blob_field) (use assms in \<open>simp_all add: int_ok_def\<close>)

lemma read_back:
  "parse_rest tg cast_handlers (at_bytes (var_field id_protocol_version v @ rest)) m =
     parse_rest tg cast_handlers (at_bytes rest) (m\<lparr>protocol_version := v\<rparr>)"
  "parse_rest tg cast_handlers (at_bytes (var_field id_payload_type v @ rest)) m =
     parse_rest tg cast_handlers (at_bytes rest) (m\<lparr>payload_type := v\<rparr>)"
  "length (blob_field id_source_id (bytes_of s)) + length rest < 2 ^ 31 \<Longrightarrow> source_id m = [] \<Longrightarrow>
   parse_rest tg cast_handlers (at_bytes (blob_field id_source_id (bytes_of s) @ rest)) m =
     parse_rest tg cast_handlers (at_bytes rest) (m\<lparr>source_id := s\<rparr>)"
  "length (blob_field id_destination_id (bytes_of s)) + length rest < 2 ^ 31 \<Longrightarrow> destination_id m = [] \<Longrightarrow>
   parse_rest tg cast_handlers (at_bytes (blob_field id_destination_id (bytes_of s) @ rest)) m =
     parse_rest tg cast_handlers (at_bytes rest) (m\<lparr>destination_id := s\<rparr>)"
  "length (blob_field id_namespace (bytes_of s)) + length rest < 2 ^ 31 \<Longrightarrow> namespace m = [] \<Longrightarrow>
   parse_rest tg cast_handlers (at_bytes (blob_field id_namespace (bytes_of s) @ rest)) m =
     parse_rest tg cast_handlers (at_bytes rest) (m\<lparr>namespace := s\<rparr>)"
  "length (blob_field id_payload_utf8 (bytes_of s)) + length rest < 2 ^ 31 \<Longrightarrow> payload_utf8 m = [] \<Longrightarrow>
   parse_rest tg cast_handlers (at_bytes (blob_field id_payload_utf8 (bytes_of s) @ rest)) m =
     parse_rest tg cast_handlers (at_bytes rest) (m\<lparr>payload_utf8 := s\<rparr>)"
  "length (blob_field id_payload_binary b) < 2 ^ 31 \<Longrightarrow> payload_binary m = [] \<Longrightarrow>
   parse_rest tg cast_handlers (at_bytes (blob_field id_payload_binary b)) m =
     Got (m\<lparr>payload_binary := b\<rparr>)"
  using read_back_blob [of 7 b "[]" m]
  by (auto simp: parse_rest_var_field cast_on_var_def cast_on_cls_def intro!: read_back_blob)

lemma cast_parse_bytes:
  assumes "cast_clean m" and "length (cast_bytes tg m) < 2 ^ 31"
  shows "cast_parse tg' (cast_bytes tg m) = Got (as_read_back m)"
proof -
  have "cast_parse tg' (cast_bytes tg m) = parse_rest tg' cast_handlers (at_bytes (cast_bytes tg m)) cast_reset"
    using assms(2) by (simp add: cast_parse_def parse_eq_parse_rest int_ok_def)
  also have "\<dots> = Got (as_read_back m)"
    using assms by (simp add: cast_bytes_def cast_clean_def str_field_clean read_back cast_reset_def as_read_back_def split: if_splits)
  finally show ?thesis .
qed


lemma length_cast_bytes:
  assumes "cast_clean m"
  shows "length (cast_bytes tg m) = cast_size m"
  using assms
  by (simp add: cast_bytes_def cast_clean_def str_field_clean cast_size_def cast_size_content_def
      size_var_eq size_str_eq size_cls_eq)

lemma cast_clean_writable: "cast_clean m \<Longrightarrow> cast_writable m"
  by (simp add: cast_clean_def cast_writable_def)

lemma cast_serialize_lasterr:
  "cast_writable m \<Longrightarrow> lasterr (snd (cast_serialize tg m pout)) =
     (if isutf8 (c_str (destination_id m)) \<and> isutf8 (c_str (namespace m)) then pberr_ok
      else pberr_str_non_utf8)"
  by (auto simp: cast_serialize_def cast_out_content_def and_then_def plus_writers_def out_var_eq
      out_str_eq out_cls_eq cast_writable_def)

lemma cast_serialize_eq:
  assumes "cast_writable m"
  shows "cast_serialize tg m pout =
    (True, \<lparr>obuf = pout @ cast_bytes tg m,
            lasterr = (if isutf8 (c_str (destination_id m)) \<and> isutf8 (c_str (namespace m))
                       then pberr_ok else pberr_str_non_utf8)\<rparr>)"
  using assms cast_serialize_result [of tg m pout] cast_serialize_bytes [of m tg pout]
    cast_serialize_lasterr [of m tg pout]
  by (cases "cast_serialize tg m pout") auto

lemma zigzag_encode_0 [simp]: "zigzag_encode 0 = 0"
  by (simp add: zigzag_encode_def)

lemma zigzag_encode_fixpoint: "zigzag_encode (v :: u32) = v \<longleftrightarrow> v = 0"
proof
  assume eq: "zigzag_encode v = v"
  define s where "s = sint v"
  have "uint v = (if 0 \<le> s then 2 * s else - 2 * s - 1)"
    using uint_zigzag_encode [of v] eq by (simp add: s_def)
  moreover have "uint v = s mod 4294967296"
    by (simp add: s_def uint_sint take_bit_eq_mod)
  moreover have "- 2147483648 \<le> s" and "s < 2147483648"
    using sint_ge [of v] sint_lt [of v] by (simp_all add: s_def)
  moreover have "s mod 4294967296 = s + 4294967296" if "s < 0"
  proof -
    have "s mod 4294967296 = (s + 4294967296) mod 4294967296" by simp
    also have "\<dots> = s + 4294967296"
      using that \<open>- 2147483648 \<le> s\<close> by (intro mod_pos_pos_trivial) simp_all
    finally show ?thesis .
  qed
  moreover have "\<not> (- 2 * s - 1 = s + 4294967296)" by presburger
  ultimately have "s = 0" by (cases "0 \<le> s") auto
  then show "v = 0" using of_int_sint [of v, where 'a = u32] by (simp only: s_def scast_id of_int_0)
qed simp

lemma cast_bytes_drop_destination:
  "\<not> isutf8 (c_str (destination_id m)) \<Longrightarrow> cast_bytes tg m = cast_bytes tg (m\<lparr>destination_id := []\<rparr>)"
  by (simp add: cast_bytes_def str_field_def blob_field_def c_str_def)

lemma cast_size_drop_destination:
  "c_str (destination_id m) \<noteq> [] \<Longrightarrow> cast_size (m\<lparr>destination_id := []\<rparr>) < cast_size m"
  by (simp add: cast_size_def cast_size_content_def size_str_def c_str_def size_length_delimited_def)

lemma get_length_delimited_overflow:
  assumes "2 ^ 31 \<le> n" and "n < 2 ^ 32" and "length (leb128 n @ rest) < 2 ^ 31"
  shows "\<exists>c'. get_length_delimited (at_bytes (leb128 n @ rest)) = Got ((rest, n), c')"
proof -
  have "get_varint (at_bytes (leb128 n @ rest)) = Got (of_nat n :: u32, at_bytes rest)"
    using get_varint_leb128 [of n "int (length (leb128 n @ rest))" rest, where 'a = 32] assms(2)
    by (simp add: at_bytes_def)
  moreover have "sint (of_nat n :: u32) < 0"
  proof -
    have "bit (of_nat n :: u32) 31"
    proof -
      have "n div 2 ^ 31 = 1" using assms(1,2) by (intro div_nat_eqI) simp_all
      then have "bit n 31" by (simp add: bit_iff_odd)
      then show ?thesis by (simp add: bit_of_nat_iff)
    qed
    then show ?thesis using bit_last_iff [of "of_nat n :: u32"] by simp
  qed
  moreover have "unat (of_nat n :: u32) = n"
    using assms(2) by (simp add: unat_of_nat)
  ultimately show ?thesis by (simp add: get_length_delimited_def)
qed

lemma cast_wire:
  assumes "cast_clean m" and "cast_size m < 2 ^ 31"
  shows "\<exists>bytes. cast_serialize tg m pout = (True, \<lparr>obuf = pout @ bytes, lasterr = pberr_ok\<rparr>) \<and>
    length bytes = cast_size m \<and> cast_parse tg' bytes = Got (as_read_back m)"
proof (intro exI conjI)
  show "cast_serialize tg m pout = (True, \<lparr>obuf = pout @ cast_bytes tg m, lasterr = pberr_ok\<rparr>)"
    using assms(1) by (simp add: cast_serialize_eq cast_clean_writable) (simp add: cast_clean_def)
  show "length (cast_bytes tg m) = cast_size m"
    using assms(1) by (rule length_cast_bytes)
  then show "cast_parse tg' (cast_bytes tg m) = Got (as_read_back m)"
    using assms by (intro cast_parse_bytes) simp_all
qed


definition ping_example :: cast_message where
  "ping_example =
     \<lparr>protocol_version = CASTV2_1_0, source_id = ''sender-0'', destination_id = ''receiver-0'',
      namespace = ''urn:x'', payload_type = STRING, payload_utf8 = ''{}'', payload_binary = []\<rparr>"

lemma ping_example_clean: "cast_clean ping_example"
  by (simp add: cast_clean_def ping_example_def c_str_def byte_of_char_def isutf8_def)

lemma size_cls_0 [simp]: "size_cls fid 0 = 0"
  by (simp add: size_cls_def)

lemmas cast_size_simps =
  cast_size_def cast_size_content_def c_str_def byte_of_char_def size_var_eq size_str_eq size_cls_eq
  var_field_def blob_field_def out_key_def out_length_delimited_def out_varint_leb128 leb128_small

lemma ping_example_size: "cast_size ping_example = 37"
  by (simp add: cast_size_simps ping_example_def)

definition tg0 :: target where
  "tg0 = \<lparr>isbig = False, plus_rhs_first = False\<rparr>"

subsection \<open>Properties\<close>



text \<open>C39. The enums are written ZigZag encoded and read plain, so what is read back is the message
  itself only when the version is \<open>CASTV2_1_0\<close> and the payload type \<open>STRING\<close>; a \<open>BINARY\<close> message (1) is
  read back with payload type 2.\<close>

theorem cast_enums_mismatch:
  assumes "cast_clean m" and "cast_size m < 2 ^ 31"
  shows "\<exists>bytes m'. cast_serialize tg m [] = (True, \<lparr>obuf = bytes, lasterr = pberr_ok\<rparr>) \<and>
    cast_parse tg' bytes = Got m' \<and>
    (m' = m \<longleftrightarrow> protocol_version m = CASTV2_1_0 \<and> payload_type m = STRING) \<and>
    (payload_type m = BINARY \<longrightarrow> payload_type m' = 2)"
proof -
  obtain bytes where b: "cast_serialize tg m [] = (True, \<lparr>obuf = bytes, lasterr = pberr_ok\<rparr>)"
    "cast_parse tg' bytes = Got (as_read_back m)"
    using cast_wire [OF assms, of tg "[]" tg'] by auto
  have "as_read_back m = m \<longleftrightarrow> protocol_version m = CASTV2_1_0 \<and> payload_type m = STRING"
    by (cases m) (simp add: as_read_back_def zigzag_encode_fixpoint)
  moreover have "payload_type m = BINARY \<longrightarrow> payload_type (as_read_back m) = 2"
    by (simp add: as_read_back_def zigzag_encode_def)
  ultimately show ?thesis using b by blast
qed

theorem cast_enums_mismatch_witness:
  "\<exists>bytes m'. cast_serialize tg0 (ping_example\<lparr>payload_type := BINARY\<rparr>) [] =
      (True, \<lparr>obuf = bytes, lasterr = pberr_ok\<rparr>) \<and>
    cast_parse tg0 bytes = Got m' \<and> payload_type m' = 2"
proof -
  let ?m = "ping_example\<lparr>payload_type := BINARY\<rparr>"
  have "cast_clean ?m" using ping_example_clean by (simp add: cast_clean_def)
  moreover have "cast_size ?m < 2 ^ 31"
    by (simp add: cast_size_simps ping_example_def zigzag_encode_def)
  ultimately show ?thesis using cast_enums_mismatch [of ?m tg0 tg0] by fastforce
qed

text \<open>A destination the UTF-8 test refuses (any with a two-byte character) is dropped in silence: the
  \<open>+\<close> in \<open>out_content\<close> makes \<open>serialize\<close> return \<open>true\<close> all the same, the receiver reads a message with no
  destination, and the bytes written are fewer than \<open>size()\<close>, which frames the message, announces.\<close>

theorem cast_drops_destination:
  assumes "\<not> isutf8 (c_str (destination_id m))" and "cast_clean (m\<lparr>destination_id := []\<rparr>)"
    and "cast_size m < 2 ^ 31"
  shows "\<exists>bytes. cast_serialize tg m pout =
      (True, \<lparr>obuf = pout @ bytes, lasterr = pberr_str_non_utf8\<rparr>) \<and>
    length bytes < cast_size m \<and>
    cast_parse tg' bytes = Got (as_read_back (m\<lparr>destination_id := []\<rparr>))"
proof (intro exI conjI)
  let ?m = "m\<lparr>destination_id := []\<rparr>"
  have w: "cast_writable m" using assms(2) by (simp add: cast_clean_def cast_writable_def)
  show "cast_serialize tg m pout =
      (True, \<lparr>obuf = pout @ cast_bytes tg ?m, lasterr = pberr_str_non_utf8\<rparr>)"
    using assms(1) by (simp add: cast_serialize_eq [OF w] cast_bytes_drop_destination)
  have "c_str (destination_id m) \<noteq> []" using assms(1) by (auto simp: isutf8_def)
  then show less: "length (cast_bytes tg ?m) < cast_size m"
    using cast_size_drop_destination length_cast_bytes [OF assms(2)] by simp
  show "cast_parse tg' (cast_bytes tg ?m) = Got (as_read_back ?m)"
    using less assms(3) by (intro cast_parse_bytes [OF assms(2)]) simp
qed

theorem cast_drops_destination_witness:
  "\<exists>bytes. cast_serialize tg0 (ping_example\<lparr>destination_id := string_of [0xC3, 0xA9]\<rparr>) [] =
      (True, \<lparr>obuf = bytes, lasterr = pberr_str_non_utf8\<rparr>) \<and> length bytes < 29 \<and>
    cast_parse tg0 bytes = Got (ping_example\<lparr>destination_id := []\<rparr>)"
proof -
  let ?m = "ping_example\<lparr>destination_id := string_of [0xC3, 0xA9]\<rparr>"
  have "\<not> isutf8 (c_str (destination_id ?m))"
    by (simp add: c_str_def isutf8_def)
  moreover have "cast_clean (?m\<lparr>destination_id := []\<rparr>)"
    by (simp add: cast_clean_def ping_example_def c_str_def byte_of_char_def isutf8_def)
  moreover have size: "cast_size ?m = 29"
    by (simp add: cast_size_simps ping_example_def) (simp flip: byte_of_char_def)
  ultimately show ?thesis
    using cast_drops_destination [of ?m tg0 "[]" tg0]
    by (simp add: size) (simp add: as_read_back_def ping_example_def)
qed

text \<open>When \<open>serialize\<close> succeeds: the source and the payload pass the UTF-8 test, and so does the
  destination or the namespace (not: and the namespace).\<close>

theorem cast_serialize_succeeds_iff:
  "fst (cast_serialize tg m pout) \<longleftrightarrow>
     isutf8 (c_str (source_id m)) \<and>
     (isutf8 (c_str (destination_id m)) \<or> isutf8 (c_str (namespace m))) \<and>
     isutf8 (c_str (payload_utf8 m))"
  using cast_serialize_result by (simp add: cast_writable_def)

text \<open>C17. Parsing a message of any content stays inside its buffer unless a length of \<open>2 ^ 31\<close> or more
  can be read somewhere in it.\<close>

theorem cast_parse_safe:
  assumes "length msg < 2 ^ 31" and "cast_parse tg msg = Fault"
  shows "huge_length msg"
  using assms cast.parse_fault_huge by (simp add: cast_parse_def)

theorem cast_parse_safe_witness:
  "huge_length [0x12, 0xFF, 0xFF, 0xFF, 0xFF, 0x0F]"
proof (rule cast_parse_safe [where tg = tg0])
  show "length [0x12, 0xFF, 0xFF, 0xFF, 0xFF, 0x0F :: byte] < 2 ^ 31" by simp
  show "cast_parse tg0 [0x12, 0xFF, 0xFF, 0xFF, 0xFF, 0x0F] = Fault"
    by (simp add: cast_parse_def parse_def parse_loop.simps get_key_def get_varint_def parse_field_def
        p_cls_def get_length_delimited_def cast_on_cls_def read_region_def int32_def)
qed

text \<open>C31. A message whose string or bytes field announces a length of \<open>2 ^ 31\<close> or more makes \<open>parse\<close>
  read past its buffer: the length, compared as a signed \<open>int\<close>, passes for smaller than what is left.\<close>

theorem cast_parse_reads_past_buffer:
  assumes "fid \<in> {id_source_id, id_destination_id, id_namespace, id_payload_utf8, id_payload_binary}"
    and "2 ^ 31 \<le> n" and "n < 2 ^ 32"
    and "length (out_key fid pb_length_delimited [] @ leb128 n @ rest) < 2 ^ 31"
  shows "cast_parse tg (out_key fid pb_length_delimited [] @ leb128 n @ rest) = Fault"
proof -
  let ?msg = "out_key fid pb_length_delimited [] @ leb128 n @ rest"
  have "?msg \<noteq> []" by simp
  then have "cast_parse tg ?msg = parse_loop tg cast_handlers (at_bytes ?msg) cast_reset"
    using assms(4) by (simp add: cast_parse_def parse_def at_bytes_def int_ok_def)
  moreover obtain c' where "get_length_delimited (at_bytes (leb128 n @ rest)) = Got ((rest, n), c')"
    using get_length_delimited_overflow [OF assms(2,3), of rest] assms(4) by auto
  moreover have "\<not> n \<le> length rest" using assms(2,4) by simp
  ultimately show ?thesis using assms(1)
    by (auto simp: parse_loop_rest get_key_at_bytes parse_field_def p_cls_def cast_on_cls_def read_region_def)
qed

theorem cast_parse_reads_past_buffer_witness:
  "cast_parse tg0 (out_key id_source_id pb_length_delimited [] @ leb128 (2 ^ 31) @ [0x41]) = Fault"
proof (rule cast_parse_reads_past_buffer)
  show "length (out_key id_source_id pb_length_delimited [] @ leb128 (2 ^ 31) @ [0x41]) < 2 ^ 31"
    by (simp add: out_key_def out_varint_leb128 leb128_small leb128_big)
qed simp_all

lemma length_key_le: "length (out_key fid w []) \<le> 5"
  using length_leb128_word [of 5, where 'a = 32] by (simp add: out_key_def out_varint_leb128)

lemma length_var_field_le: "length (var_field fid (v :: u32)) \<le> 10"
  using length_key_le [of fid pb_varint] length_leb128_word [of 5 v]
  by (simp add: var_field_def out_varint_leb128)

lemma cast_parse_parse_rest:
  "length msg < 2 ^ 31 \<Longrightarrow> cast_parse tg msg = parse_rest tg cast_handlers (at_bytes msg) cast_reset"
  by (simp add: cast_parse_def parse_eq_parse_rest int_ok_def)

lemma get_fixed_at_bytes:
  "get_fixed tg (at_bytes (le_bytes (x :: u32) @ rest)) = Got (x, at_bytes rest)"
  "get_fixed tg (at_bytes (le_bytes (y :: u64) @ rest)) = Got (y, at_bytes rest)"
  using fixed32.dec_at_bytes [of tg tg x rest] fixed64.dec_at_bytes [of tg tg y rest]
  by (simp_all add: out_fixed_eq)

lemma cast_parse_field:
  assumes "fid < 2 ^ 29" and "w < 8" and "length bs + 5 < 2 ^ 31"
  shows "cast_parse tg (out_key fid w [] @ bs) =
    rd_bind (parse_field tg cast_handlers fid w (at_bytes bs) cast_reset)
      (\<lambda>(m, c). parse_rest tg cast_handlers c m)"
proof -
  have "out_key fid w [] \<noteq> []" by (simp add: out_key_def out_varint_leb128)
  then show ?thesis
    using assms length_key_le [of fid w]
    by (simp add: cast_parse_parse_rest parse_rest_field parse_loop_rest get_key_at_bytes)
qed

text \<open>Fields the message does not know: a varint, length-delimited or fixed 32-bit one makes
  \<open>parse\<close> return \<open>false\<close> (with \<open>_lasterr\<close> still \<open>pberr_ok\<close>), a fixed 64-bit one is skipped, and group wire
  types fail with \<open>pberr_decode\<close>.\<close>

theorem cast_unknown_fields:
  assumes "fid < 2 ^ 29" and "fid = 0 \<or> 7 < fid" and "length rest + 16 < 2 ^ 31"
  shows "cast_parse tg (var_field fid (v :: u32) @ rest) = Refused pberr_ok \<and>
    cast_parse tg (out_key fid pb_fixed32 [] @ le_bytes (x :: u32) @ rest) = Refused pberr_ok \<and>
    cast_parse tg (out_key fid pb_fixed64 [] @ le_bytes (y :: u64) @ rest) = cast_parse tg rest \<and>
    cast_parse tg (out_key fid pb_start_group [] @ rest) = Refused pberr_decode"
proof (intro conjI)
  have other: "fid \<noteq> id_protocol_version" "fid \<noteq> id_payload_type"
    using assms(2) by auto
  have short: "length (var_field fid v @ rest) < 2 ^ 31"
    using assms(3) length_var_field_le [of fid v] by simp
  show "cast_parse tg (var_field fid v @ rest) = Refused pberr_ok"
    unfolding cast_parse_parse_rest [OF short] parse_rest_var_field [OF assms(1)]
    by (simp add: cast_on_var_def other)
  show "cast_parse tg (out_key fid pb_fixed32 [] @ le_bytes x @ rest) = Refused pberr_ok"
    using assms(1,3)
    by (simp add: cast_parse_field parse_field_def p_fixed32_def get_fixed_at_bytes cast_on_fix32_def)
  show "cast_parse tg (out_key fid pb_fixed64 [] @ le_bytes y @ rest) = cast_parse tg rest"
    using assms(1,3)
    by (simp add: cast_parse_field parse_field_def p_fixed64_def get_fixed_at_bytes
        cast_on_fix64_def cast_parse_parse_rest)
  show "cast_parse tg (out_key fid pb_start_group [] @ rest) = Refused pberr_decode"
    using assms(1,3) by (simp add: cast_parse_field parse_field_def jump_over_def)
qed

theorem cast_unknown_fields_witness:
  "cast_parse tg0 (var_field 9 (1 :: u32)) = Refused pberr_ok \<and>
   cast_parse tg0 (out_key 9 pb_start_group []) = Refused pberr_decode"
proof -
  have "(9 :: u32) < 2 ^ 29" "(9 :: u32) = 0 \<or> 7 < (9 :: u32)" "length ([] :: byte list) + 16 < 2 ^ 31"
    by simp_all
  from cast_unknown_fields [OF this, of tg0 1] show ?thesis by simp
qed

end
