(* ===== verification/Packed.thy ===== *)
theory Packed
  imports Cast_Message
begin

text \<open>
  The rest of \<open>cls_protoc3\<close>: a message as a field of another one, arrays of messages, packed arrays
  of numbers, and the small helpers.

  A message class is what it overrides: \<open>contents\<close> holds \<open>size_content\<close> and \<open>out_content\<close>. The
  locale \<open>message_contents\<close> is the contract between the two, on which the framing of a nested message
  rests; \<open>CastMessage\<close> provides it. Arrays are lists; the loops count with an \<open>unsigned int\<close>, so the
  lists stand for arrays of fewer than \<open>2 ^ 32\<close> items. The width of \<open>'a\<close> is that of \<open>utype\<close>.
\<close>

record 'm contents =
  size_content :: "'m \<Rightarrow> nat"
  out_content :: "'m \<Rightarrow> writer"

subsection \<open>A message as a field\<close>

definition size_id :: "'m contents \<Rightarrow> u32 \<Rightarrow> 'm \<Rightarrow> nat" where
  "size_id C uid m =
     (let sizebody = size_content C m
      in if sizebody = 0 then 0
         else size_key uid pb_length_delimited + size_length_delimited sizebody)"

definition serialize_id :: "'m contents \<Rightarrow> u32 \<Rightarrow> 'm \<Rightarrow> byte list \<Rightarrow> bool \<times> ostate" where
  "serialize_id C fid m pout =
     (let sizebody = size_content C m; st = \<lparr>obuf = pout, lasterr = pberr_ok\<rparr>
      in if sizebody = 0 then (True, st)
         else and_then (append_with (out_key fid pb_length_delimited))
               (and_then (append_with (out_varint (of_nat sizebody :: u64))) (out_content C m)) st)"

fun size_obj_array :: "'m contents \<Rightarrow> u32 \<Rightarrow> 'm list \<Rightarrow> nat" where
  "size_obj_array C objid [] = 0"
| "size_obj_array C objid (i # vs) = size_id C objid i + size_obj_array C objid vs"

fun out_obj_array :: "'m contents \<Rightarrow> byte list \<Rightarrow> u32 \<Rightarrow> 'm list \<Rightarrow> bool \<times> byte list" where
  "out_obj_array C pout objid [] = (True, pout)"
| "out_obj_array C pout objid (i # vs) =
     (case serialize_id C objid i pout of
        (ok, st) \<Rightarrow> if \<not> ok then (False, obuf st) else out_obj_array C (obuf st) objid vs)"

definition parse_obj_array :: "target \<Rightarrow> 'm handlers \<Rightarrow> byte list \<Rightarrow> 'm list \<Rightarrow> 'm list rd" where
  "parse_obj_array tg h pdata vs = rd_bind (parse tg h pdata) (\<lambda>t. Got (vs @ [t]))"

subsection \<open>Packed arrays\<close>

definition p_varpacket :: "bool \<Rightarrow> cursor \<Rightarrow> ('a::len word \<times> cursor) rd" where
  "p_varpacket zigzag c =
     rd_bind (get_varint c) (\<lambda>(v :: 'a word, c). Got (if zigzag then zigzag_decode v else v, c))"

fun size_varpacket :: "bool \<Rightarrow> 'a::len word list \<Rightarrow> nat" where
  "size_varpacket zigzag [] = 0"
| "size_varpacket zigzag (v # vs) =
     (if zigzag then size_varint (zigzag_encode v) else size_varint v) + size_varpacket zigzag vs"

definition size_varpacket_id :: "u32 \<Rightarrow> bool \<Rightarrow> 'a::len word list \<Rightarrow> nat" where
  "size_varpacket_id fid zigzag vs =
     (if vs = [] then 0
      else let zn = size_varpacket zigzag vs
           in size_key fid pb_length_delimited + size_varint (of_nat zn :: u64) + zn)"

fun out_varpacket_loop :: "bool \<Rightarrow> 'a::len word list \<Rightarrow> byte list \<Rightarrow> byte list" where
  "out_varpacket_loop zigzag [] pout = pout"
| "out_varpacket_loop zigzag (v # vs) pout =
     out_varpacket_loop zigzag vs
       (if zigzag then out_varint (zigzag_encode v) pout else out_varint v pout)"

definition out_varpacket :: "u32 \<Rightarrow> bool \<Rightarrow> 'a::len word list \<Rightarrow> byte list \<Rightarrow> byte list" where
  "out_varpacket fid zigzag vs pout =
     (if vs = [] then pout
      else let zbody = size_varpacket zigzag vs;
               pout = out_key fid pb_length_delimited pout;
               pout = out_varint (of_nat zbody :: u64) pout
           in out_varpacket_loop zigzag vs pout)"

text \<open>\<open>size_fix32packet\<close>, \<open>size_fix64packet\<close>, \<open>out_fix32packet\<close> and \<open>out_fix64packet\<close>:
  \<open>sizeof(_Tp)\<close> is 4 or 8 by the width of \<open>'a\<close>.\<close>

definition size_fixpacket :: "u32 \<Rightarrow> 'a::len word list \<Rightarrow> nat" where
  "size_fixpacket fid vs =
     (if vs = [] then 0
      else let n = LENGTH('a) div 8 * length vs
           in size_key fid pb_length_delimited + size_varint (of_nat n :: u64) + n)"

definition out_fixpacket :: "target \<Rightarrow> u32 \<Rightarrow> 'a::len word list \<Rightarrow> byte list \<Rightarrow> byte list" where
  "out_fixpacket tg fid vs pout =
     (if vs = [] then pout
      else let zbody = LENGTH('a) div 8 * length vs;
               pout = out_key fid pb_length_delimited pout;
               pout = out_varint (of_nat zbody :: u64) pout
           in fold (out_fixed tg) vs pout)"

subsection \<open>Helpers\<close>

text \<open>\<open>cpstr\<close> fills a buffer of \<open>sizeout\<close> bytes; \<open>psrc\<close> is empty for a null pointer as for a size
  of 0. What it returns is the bytes stored, the terminating NUL among them, and the count.\<close>

definition cpstr :: "nat \<Rightarrow> byte list \<Rightarrow> (byte list \<times> nat) rd" where
  "cpstr sizeout psrc =
     (if psrc = [] then (if sizeout = 0 then Fault else Got ([0], 0))
      else if sizeout = 0 then Fault
      else let zc = (if length psrc < sizeout then length psrc else sizeout - 1)
           in Got (take zc psrc @ [0], zc))"

primrec getlasterrstr :: "pberr \<Rightarrow> string" where
  "getlasterrstr pberr_ok = ''''"
| "getlasterrstr pberr_encode = ''encode failed''"
| "getlasterrstr pberr_decode = ''decode failed''"
| "getlasterrstr pberr_str_non_utf8 = ''string is not utf8 encode''"
| "getlasterrstr pberr_memory = ''memory error''"

definition cls2str :: "region \<Rightarrow> string rd" where
  "cls2str r =
     rd_bind (read_region r) (\<lambda>bs.
       if \<not> isutf8 bs then Refused pberr_str_non_utf8 else Got (string_of bs))"

text \<open>The handlers a message class does not override.\<close>

definition default_handlers :: "'m \<Rightarrow> 'm handlers" where
  "default_handlers m0 =
     \<lparr>on_reset = m0, on_cls = \<lambda>field_number r m. Got m, on_var = \<lambda>field_number val m. Got m,
      on_fix32 = \<lambda>field_number pval m. Got m, on_fix64 = \<lambda>field_number pval m. Got m\<rparr>"

interpretation defaults: message_handlers "default_handlers m0" for m0
  by unfold_locales (simp_all add: default_handlers_def)

subsection \<open>What is written\<close>

definition item_bytes :: "bool \<Rightarrow> 'a::len word \<Rightarrow> byte list" where
  "item_bytes zigzag v = out_varint (if zigzag then zigzag_encode v else v) []"

lemma out_varpacket_loop_eq:
  "out_varpacket_loop zigzag vs pout = pout @ concat (map (item_bytes zigzag) vs)"
proof (induction vs arbitrary: pout)
  case (Cons v vs)
  then show ?case
    using out_varint_append [of v pout] out_varint_append [of "zigzag_encode v" pout]
    by (simp add: item_bytes_def)
qed simp

lemma size_varpacket_eq:
  "size_varpacket zigzag vs = length (concat (map (item_bytes zigzag) vs))"
  by (induction vs)
    (simp_all add: item_bytes_def size_varint_leb128 out_varint_leb128)

lemma size_varpacket_pos: "vs \<noteq> [] \<Longrightarrow> concat (map (item_bytes zigzag) vs) \<noteq> []"
  by (cases vs) (simp_all add: item_bytes_def out_varint_leb128)

lemma out_length_delimited_eq:
  "out_length_delimited bs pout = out_varint (of_nat (length bs) :: u64) pout @ bs"
  by (simp add: out_length_delimited_def)

lemma framed_body:
  "body \<noteq> [] \<Longrightarrow>
     out_varint (of_nat (length body) :: u64) (out_key fid pb_length_delimited pout) @ body =
     pout @ blob_field fid body"
  by (simp add: blob_field_def out_length_delimited_eq out_key_append [of _ _ pout]
      out_varint_append [of _ "pout @ _"])

lemma framed_size:
  "body \<noteq> [] \<Longrightarrow>
     size_key fid pb_length_delimited + size_varint (of_nat (length body) :: u64) + length body =
     length (blob_field fid body)"
  by (simp add: blob_field_def size_key_eq out_length_delimited_eq size_varint_leb128 out_varint_leb128)

lemma out_varpacket_eq:
  "out_varpacket fid zigzag vs pout = pout @ blob_field fid (concat (map (item_bytes zigzag) vs))"
proof (cases "vs = []")
  case False
  then show ?thesis
    using framed_body [OF size_varpacket_pos [OF False, of zigzag], of fid pout]
    by (simp only: out_varpacket_def out_varpacket_loop_eq size_varpacket_eq Let_def if_False)
qed (simp add: out_varpacket_def blob_field_def)

lemma size_varpacket_id_eq:
  "size_varpacket_id fid zigzag vs = length (blob_field fid (concat (map (item_bytes zigzag) vs)))"
proof (cases "vs = []")
  case False
  then show ?thesis
    using framed_size [OF size_varpacket_pos [OF False, of zigzag], of fid]
    by (simp only: size_varpacket_id_def size_varpacket_eq Let_def if_False)
qed (simp add: size_varpacket_id_def blob_field_def)

lemma fold_out_fixed:
  "fold (out_fixed tg) vs pout = pout @ concat (map (\<lambda>v. out_fixed tg v []) vs)"
proof (induction vs arbitrary: pout)
  case (Cons v vs)
  have "out_fixed tg v pout = pout @ out_fixed tg v []" by (simp add: out_fixed_def)
  with Cons show ?case by simp
qed simp
lemma length_concat_out_fixed:
  "length (concat (map (\<lambda>v :: 'a::len word. out_fixed tg v []) vs)) = LENGTH('a) div 8 * length vs"
  by (induction vs) (simp_all add: out_fixed_def)

definition fixed_body :: "target \<Rightarrow> 'a::len word list \<Rightarrow> byte list" where
  "fixed_body tg vs = concat (map (\<lambda>v. out_fixed tg v []) vs)"

lemma fixed_body_nonempty: "8 \<le> LENGTH('a) \<Longrightarrow> (vs :: 'a::len word list) \<noteq> [] \<Longrightarrow> fixed_body tg vs \<noteq> []"
  unfolding fixed_body_def length_greater_0_conv [symmetric] length_concat_out_fixed
  by (simp add: div_greater_zero_iff)

lemma out_fixpacket_eq:
  assumes "8 \<le> LENGTH('a::len)"
  shows "out_fixpacket tg fid (vs :: 'a word list) pout = pout @ blob_field fid (fixed_body tg vs)"
proof (cases "vs = []")
  case False
  then show ?thesis
    using framed_body [OF fixed_body_nonempty [OF assms False, of tg], of fid pout]
    by (simp only: out_fixpacket_def fold_out_fixed fixed_body_def length_concat_out_fixed Let_def if_False)
qed (simp add: out_fixpacket_def blob_field_def fixed_body_def)

lemma size_fixpacket_eq:
  assumes "8 \<le> LENGTH('a::len)"
  shows "size_fixpacket fid (vs :: 'a word list) = length (blob_field fid (fixed_body tg vs))"
proof (cases "vs = []")
  case False
  then show ?thesis
    using framed_size [OF fixed_body_nonempty [OF assms False, of tg], of fid]
    by (simp only: size_fixpacket_def fixed_body_def length_concat_out_fixed Let_def if_False)
qed (simp add: size_fixpacket_def blob_field_def fixed_body_def)

subsection \<open>The contract of a message class\<close>

locale message_contents =
  fixes C :: "'m contents"
    and good :: "'m \<Rightarrow> bool"
    and body :: "'m \<Rightarrow> byte list"
  assumes writes_body: "good m \<Longrightarrow> out_content C m st = (True, st\<lparr>obuf := obuf st @ body m\<rparr>)"
    and measures_body: "good m \<Longrightarrow> size_content C m = length (body m)"
begin

lemma serialize_id_eq:
  "good m \<Longrightarrow>
     serialize_id C fid m pout = (True, \<lparr>obuf = pout @ blob_field fid (body m), lasterr = pberr_ok\<rparr>)"
  by (cases "body m = []")
    (simp_all add: serialize_id_def measures_body writes_body and_then_def append_with_def framed_body,
     simp_all add: blob_field_def)

lemma size_id_eq: "good m \<Longrightarrow> size_id C fid m = length (blob_field fid (body m))"
  by (simp add: size_id_def measures_body Let_def flip: size_cls_eq) (simp add: size_cls_def)

lemma out_obj_array_eq:
  "list_all good vs \<Longrightarrow>
     out_obj_array C pout fid vs = (True, pout @ concat (map (\<lambda>m. blob_field fid (body m)) vs))"
  by (induction vs arbitrary: pout) (simp_all add: serialize_id_eq)

lemma size_obj_array_eq:
  "list_all good vs \<Longrightarrow>
     size_obj_array C fid vs = length (concat (map (\<lambda>m. blob_field fid (body m)) vs))"
  by (induction vs) (simp_all add: size_id_eq)

end

definition cast_contents :: "target \<Rightarrow> cast_message contents" where
  "cast_contents tg = \<lparr>size_content = cast_size_content, out_content = cast_out_content tg\<rparr>"

interpretation casts: message_contents "cast_contents tg" cast_clean "cast_bytes tg" for tg
proof
  fix m st assume clean: "cast_clean m"
  show "out_content (cast_contents tg) m st = (True, st\<lparr>obuf := obuf st @ cast_bytes tg m\<rparr>)"
    using clean
    by (simp add: cast_contents_def cast_out_content_def and_then_def plus_writers_def out_var_eq
        out_str_eq out_cls_eq cast_clean_def cast_bytes_def str_field_def)
  show "size_content (cast_contents tg) m = length (cast_bytes tg m)"
    using length_cast_bytes [OF clean] by (simp add: cast_contents_def cast_size_def)
qed

subsection \<open>Reading arrays back\<close>

text \<open>
  How a class with a repeated field uses the two readers: \<open>read_varpacket\<close> takes items off a packed
  array until it is used up; \<open>array_handlers\<close> is a message whose every length-delimited field is an
  element, given to \<open>parse_obj_array\<close>.
\<close>

function read_varpacket :: "bool \<Rightarrow> cursor \<Rightarrow> 'a::len word list rd" where
  "read_varpacket zigzag c =
     (if pd c = [] then Got []
      else rd_bind (p_varpacket zigzag c) (\<lambda>(v :: 'a word, c).
        rd_bind (read_varpacket zigzag c) (\<lambda>vs. Got (v # vs))))"
  by pat_completeness auto
termination
  by (relation "measure (\<lambda>(zigzag, c). length (pd c))")
    (auto simp: p_varpacket_def rd_bind_eq_Got dest!: get_varint_moved moved_shorter)

declare read_varpacket.simps [simp del]

definition array_handlers :: "target \<Rightarrow> 'm handlers \<Rightarrow> 'm list handlers" where
  "array_handlers tg h =
     (default_handlers [])\<lparr>on_cls := \<lambda>field_number r vs.
        rd_bind (read_region r) (\<lambda>bs. parse_obj_array tg h bs vs)\<rparr>"

lemma array_handlers_sel [simp]:
  "on_reset (array_handlers tg h) = []"
  "on_cls (array_handlers tg h) fid r vs = rd_bind (read_region r) (\<lambda>bs. parse_obj_array tg h bs vs)"
  by (simp_all add: array_handlers_def default_handlers_def)

lemma p_varpacket_item:
  "1 < LENGTH('a) \<Longrightarrow>
     p_varpacket zigzag (at_bytes (item_bytes zigzag (v :: 'a::len word) @ rest)) = Got (v, at_bytes rest)"
  using varint.dec_at_bytes [of "zigzag_encode v" rest] varint.dec_at_bytes [of v rest]
  by (cases zigzag) (simp_all add: p_varpacket_def item_bytes_def zigzag_decode_encode)

lemma item_bytes_nonempty [simp]: "item_bytes zigzag v \<noteq> []"
  by (simp add: item_bytes_def out_varint_leb128)

lemma read_varpacket_items:
  "1 < LENGTH('a) \<Longrightarrow>
     read_varpacket zigzag (at_bytes (concat (map (item_bytes zigzag) (vs :: 'a::len word list)))) = Got vs"
  by (induction vs) (simp_all add: read_varpacket.simps p_varpacket_item)

lemma cast_bytes_nonempty [simp]: "cast_bytes tg m \<noteq> []"
  by (simp add: cast_bytes_def)

lemma parse_rest_array:
  assumes "list_all cast_clean vs" and "fid < 2 ^ 29"
    and "length (concat (map (\<lambda>m. blob_field fid (cast_bytes tg m)) vs)) < 2 ^ 31"
  shows "parse_rest tg' (array_handlers tg' cast_handlers)
      (at_bytes (concat (map (\<lambda>m. blob_field fid (cast_bytes tg m)) vs))) ws =
    Got (ws @ map as_read_back vs)"
  using assms
proof (induction vs arbitrary: ws)
  case (Cons m vs)
  let ?b = "cast_bytes tg m" and ?rest = "concat (map (\<lambda>m. blob_field fid (cast_bytes tg m)) vs)"
  have len: "length ?b < 2 ^ 31"
    using Cons.prems(3) by (simp add: blob_field_def out_length_delimited_def)
  have "on_cls (array_handlers tg' cast_handlers) fid (?b @ ?rest, length ?b) ws =
      Got (ws @ [as_read_back m])"
    using Cons.prems(1) cast_parse_bytes [OF _ len, of tg']
    by (simp add: parse_obj_array_def cast_parse_def)
  then have "parse_rest tg' (array_handlers tg' cast_handlers) (at_bytes (blob_field fid ?b @ ?rest)) ws =
      parse_rest tg' (array_handlers tg' cast_handlers) (at_bytes ?rest) (ws @ [as_read_back m])"
    using Cons.prems by (intro parse_rest_blob_field) (simp_all add: int_ok_def)
  with Cons show ?case by simp
qed simp

subsection \<open>Properties\<close>

text \<open>C20. A packed array of varints, ZigZag encoded or not: \<open>out_varpacket\<close> appends exactly
  \<open>size_varpacket\<close> bytes, a key and a length followed by the items, and \<open>p_varpacket\<close>, repeated
  to the end of that field, reads the items back in order.\<close>

theorem varpacket_round_trip:
  assumes "1 < LENGTH('a)" and "vs \<noteq> []" and "fid < 2 ^ 29"
    and "size_varpacket_id fid zigzag (vs :: 'a::len word list) < 2 ^ 31"
  shows "\<exists>key field. out_varpacket fid zigzag vs pout = pout @ key @ field \<and>
    length (key @ field) = size_varpacket_id fid zigzag vs \<and>
    get_key (at_bytes (key @ field)) = Got (fid, pb_length_delimited, at_bytes field) \<and>
    (\<exists>body. get_length_delimited (at_bytes field) = Got ((body, length body), at_bytes []) \<and>
       read_varpacket zigzag (at_bytes body) = Got vs)"
proof -
  let ?body = "concat (map (item_bytes zigzag) vs)"
  let ?key = "out_key fid pb_length_delimited []" and ?field = "out_length_delimited ?body []"
  have blob: "blob_field fid ?body = ?key @ ?field"
    using size_varpacket_pos [OF assms(2), of zigzag] by (simp only: blob_field_def if_False)
  have short: "length (?key @ ?field) < 2 ^ 31"
    using assms(4) by (simp only: size_varpacket_id_eq blob)
  have "get_length_delimited (at_bytes ?field) = Got ((?body, length ?body), at_bytes [])"
    using get_length_delimited_at_bytes [of ?body "[]"] short by (simp add: int_ok_def)
  moreover have "get_key (at_bytes (?key @ ?field)) = Got (fid, pb_length_delimited, at_bytes ?field)"
    using assms(3) by (rule get_key_at_bytes) simp
  ultimately show ?thesis
    using read_varpacket_items [OF assms(1), of zigzag vs] unfolding out_varpacket_eq size_varpacket_id_eq blob
    by blast
qed

text \<open>The example of the comment above \<open>on_cls\<close> in \<open>ec_protobuf.h\<close>.\<close>

theorem varpacket_round_trip_witness:
  "out_varpacket 4 False [3, 270, 86942 :: u32] [] = [0x22, 0x06, 0x03, 0x8E, 0x02, 0x9E, 0xA7, 0x05] \<and>
   (\<exists>body. read_varpacket False (at_bytes body) = Got [3, 270, 86942 :: u32])"
proof
  have 1: "1 < LENGTH(32)" "[3, 270, 86942 :: u32] \<noteq> []" "(4 :: u32) < 2 ^ 29" by simp_all
  have "size_varpacket_id 4 False [3, 270, 86942 :: u32] < 2 ^ 31"
    by (simp add: size_varpacket_id_def size_key_def size_varint_leb128 leb128_small leb128_big)
  from varpacket_round_trip [OF 1 this, of "[]"]
  show "\<exists>body. read_varpacket False (at_bytes body) = Got [3, 270, 86942 :: u32]" by blast
  show "out_varpacket 4 False [3, 270, 86942 :: u32] [] = [0x22, 0x06, 0x03, 0x8E, 0x02, 0x9E, 0xA7, 0x05]"
    by (simp add: out_varpacket_def out_key_def out_varint_leb128 size_varint_leb128 leb128_small leb128_big)
qed



text \<open>\<open>p_bytes\<close> on a well-formed field always returns \<open>true\<close>: \<open>outlen\<close> is overwritten with the
  field's length before the two are compared, so a caller whose buffer was too small is told that all
  of the field is in it.\<close>

theorem p_bytes_hides_truncation:
  assumes "length bs + 10 < 2 ^ 31"
  shows "p_bytes pb_length_delimited (at_bytes (out_length_delimited bs [])) outlen =
    Got (take outlen bs, length bs, at_bytes [])"
proof -
  have len: "length (out_length_delimited bs []) < 2 ^ 31"
    using assms length_leb128_word [of 10 "of_nat (length bs) :: u64"]
    by (simp add: out_length_delimited_def out_varint_leb128)
  have "get_length_delimited (at_bytes (out_length_delimited bs [])) = Got ((bs, length bs), at_bytes [])"
    using get_length_delimited_at_bytes [of bs "[]"] len by (simp add: int_ok_def)
  then show ?thesis by (simp add: p_bytes_def read_region_def)
qed

theorem p_bytes_hides_truncation_witness:
  "p_bytes pb_length_delimited (at_bytes (out_length_delimited [1, 2, 3] [])) 2 = Got ([1, 2], 3, at_bytes [])"
  using p_bytes_hides_truncation [of "[1, 2, 3]" 2] by simp

text \<open>Packed arrays of 32-bit and of 64-bit numbers: what is appended is as long as announced and
  determines the numbers, whatever the byte order of the host.\<close>

theorem fixpacket_sizes:
  "(\<exists>bytes. out_fixpacket tg fid (vs :: u32 list) pout = pout @ bytes \<and> length bytes = size_fixpacket fid vs) \<and>
   (\<exists>bytes. out_fixpacket tg fid (ws :: u64 list) pout = pout @ bytes \<and> length bytes = size_fixpacket fid ws) \<and>
   (fixed_body tg vs = fixed_body tg vs' \<longleftrightarrow> vs = vs') \<and> (fixed_body tg ws = fixed_body tg ws' \<longleftrightarrow> ws = ws') \<and>
   fixed_body tg vs = concat (map le_bytes vs)"
  using fixed32.concat_enc_inject [of tg vs vs'] fixed64.concat_enc_inject [of tg ws ws']
  by (simp add: out_fixpacket_eq size_fixpacket_eq [where tg = tg]) (simp add: fixed_body_def out_fixed_eq)

end
