(* ===== verification/Doubles.thy ===== *)
theory Doubles
  imports Complex_Main Prelude "HOL-Library.Log_Nat"
begin

text \<open>
  The C++ type \<open>double\<close> (IEEE 754 binary64, rounding to nearest, ties to even), as far as the program
  uses it: arithmetic, comparison, \<open>std::round\<close>, \<open>std::ceil\<close>, conversion to and from integers,
  \<open>strtod\<close> and the two formats it is printed in, \<open>%f\<close> (\<open>printf\<close>, \<open>std::to_string\<close>) and \<open>%g\<close>
  (\<open>std::cout\<close>).

  A \<open>dbl\<close> is a rational, ng zero, an infinity or a NaN (one: sign and payload are not kept).
  Converting a value outside \<open>int\<close> to \<open>int\<close> is undefined behaviour, \<open>None\<close>. The locale is the
  classic one. \<open>strtod\<close> reports \<open>ERANGE\<close> on overflow, and on an inexact result below the normal range.
\<close>

datatype dbl = Fin rat | NZero | PInf | NInf | NaN

fun val :: "dbl \<Rightarrow> rat" where
  "val (Fin r) = r"
| "val _ = 0"

fun finite_dbl :: "dbl \<Rightarrow> bool" where
  "finite_dbl (Fin r) = True"
| "finite_dbl NZero = True"
| "finite_dbl _ = False"

text \<open>\<open>std::signbit\<close>, of what is not a NaN.\<close>

fun negative :: "dbl \<Rightarrow> bool" where
  "negative (Fin r) \<longleftrightarrow> r < 0"
| "negative NZero = True"
| "negative NInf = True"
| "negative _ = False"

definition zero :: "bool \<Rightarrow> dbl" where
  "zero neg = (if neg then NZero else Fin 0)"

definition infinity :: "bool \<Rightarrow> dbl" where
  "infinity neg = (if neg then NInf else PInf)"

subsection \<open>Rounding\<close>

definition pow2 :: "int \<Rightarrow> rat" where
  "pow2 e = (if 0 \<le> e then 2 ^ nat e else 1 / 2 ^ nat (- e))"

text \<open>The exponent \<open>e\<close> with \<open>pow2 e \<le> a < pow2 (e + 1)\<close>.\<close>

fun ilog2 :: "nat \<Rightarrow> nat" where
  "ilog2 n = (if n < 2 then 0 else Suc (ilog2 (n div 2)))"

declare ilog2.simps [simp del]

definition exponent_of :: "rat \<Rightarrow> int" where
  "exponent_of a =
     (if 1 \<le> a then int (ilog2 (nat \<lfloor>a\<rfloor>))
      else - int (Suc (ilog2 (nat (\<lceil>1 / a\<rceil> - 1)))))"

definition half_even :: "rat \<Rightarrow> int" where
  "half_even x =
     (let n = \<lfloor>x\<rfloor>; d = x - of_int n
      in if d < 1 / 2 then n else if 1 / 2 < d then n + 1 else if even n then n else n + 1)"

text \<open>The spacing of doubles around \<open>a\<close>, and the double nearest to \<open>r\<close>, which is not zero.\<close>

definition ulp :: "rat \<Rightarrow> rat" where
  "ulp a = pow2 (max (exponent_of a) (- 1022) - 52)"

definition rnd :: "rat \<Rightarrow> dbl" where
  "rnd r =
     (let u = ulp \<bar>r\<bar>; a = of_int (half_even (\<bar>r\<bar> / u)) * u
      in if pow2 1024 \<le> a then infinity (r < 0)
         else if a = 0 then zero (r < 0)
         else Fin (if r < 0 then - a else a))"

subsection \<open>Arithmetic\<close>

fun neg :: "dbl \<Rightarrow> dbl" where
  "neg (Fin r) = (if r = 0 then NZero else Fin (- r))"
| "neg NZero = Fin 0"
| "neg PInf = NInf"
| "neg NInf = PInf"
| "neg NaN = NaN"

definition add :: "dbl \<Rightarrow> dbl \<Rightarrow> dbl" where
  "add x y =
     (if x = NaN \<or> y = NaN then NaN
      else if finite_dbl x \<and> finite_dbl y then
        (if val x + val y = 0 then zero (x = NZero \<and> y = NZero) else rnd (val x + val y))
      else if finite_dbl x then y
      else if finite_dbl y then x
      else if x = y then x else NaN)"

definition sub :: "dbl \<Rightarrow> dbl \<Rightarrow> dbl" where
  "sub x y = add x (neg y)"

definition mul :: "dbl \<Rightarrow> dbl \<Rightarrow> dbl" where
  "mul x y =
     (let s = (negative x \<noteq> negative y)
      in if x = NaN \<or> y = NaN then NaN
         else if finite_dbl x \<and> finite_dbl y then
           (if val x * val y = 0 then zero s else rnd (val x * val y))
         else if (finite_dbl x \<and> val x = 0) \<or> (finite_dbl y \<and> val y = 0) then NaN
         else infinity s)"

definition divide_dbl :: "dbl \<Rightarrow> dbl \<Rightarrow> dbl" where
  "divide_dbl x y =
     (let s = (negative x \<noteq> negative y)
      in if x = NaN \<or> y = NaN then NaN
         else if finite_dbl x \<and> finite_dbl y then
           (if val y = 0 then (if val x = 0 then NaN else infinity s)
            else if val x = 0 then zero s else rnd (val x / val y))
         else if finite_dbl x then zero s
         else if finite_dbl y then infinity s
         else NaN)"

definition dlt :: "dbl \<Rightarrow> dbl \<Rightarrow> bool" where
  "dlt x y \<longleftrightarrow> x \<noteq> NaN \<and> y \<noteq> NaN \<and>
     (if finite_dbl x \<and> finite_dbl y then val x < val y else x \<noteq> y \<and> (x = NInf \<or> y = PInf))"

definition deq :: "dbl \<Rightarrow> dbl \<Rightarrow> bool" where
  "deq x y \<longleftrightarrow> x \<noteq> NaN \<and> y \<noteq> NaN \<and>
     (if finite_dbl x \<and> finite_dbl y then val x = val y else x = y)"

definition dle :: "dbl \<Rightarrow> dbl \<Rightarrow> bool" where
  "dle x y \<longleftrightarrow> dlt x y \<or> deq x y"

subsection \<open>Integers and doubles\<close>

text \<open>\<open>of_integer\<close>: conversion of an integer type; \<open>to_int\<close>: conversion to \<open>int\<close>, towards zero.\<close>

definition of_integer :: "int \<Rightarrow> dbl" where
  "of_integer n = (if n = 0 then Fin 0 else rnd (of_int n))"

definition truncate :: "rat \<Rightarrow> int" where
  "truncate r = (if r < 0 then \<lceil>r\<rceil> else \<lfloor>r\<rfloor>)"

definition to_int :: "dbl \<Rightarrow> int option" where
  "to_int x =
     (if finite_dbl x \<and> int_ok (truncate (val x)) then Some (truncate (val x)) else None)"

fun round_dbl :: "dbl \<Rightarrow> dbl" where
  "round_dbl (Fin r) =
     (let n = \<lfloor>\<bar>r\<bar> + 1 / 2\<rfloor>
      in if n = 0 then zero (r < 0) else Fin (of_int (if r < 0 then - n else n)))"
| "round_dbl x = x"

fun ceil_dbl :: "dbl \<Rightarrow> dbl" where
  "ceil_dbl (Fin r) = (if \<lceil>r\<rceil> = 0 then zero (r < 0) else Fin (of_int \<lceil>r\<rceil>))"
| "ceil_dbl x = x"

subsection \<open>Printing\<close>

fun dec :: "nat \<Rightarrow> string" where
  "dec n = (if n < 10 then [char_of (48 + n)] else dec (n div 10) @ [char_of (48 + n mod 10)])"

declare dec.simps [simp del]

definition dec_int :: "int \<Rightarrow> string" where
  "dec_int i = (if i < 0 then CHR ''-'' # dec (nat (- i)) else dec (nat i))"

text \<open>\<open>n\<close> with leading zeros, \<open>k\<close> digits at least.\<close>

definition pad :: "nat \<Rightarrow> nat \<Rightarrow> string" where
  "pad k n = replicate (k - length (dec n)) CHR ''0'' @ dec n"

definition fixed_point :: "nat \<Rightarrow> nat \<Rightarrow> string" where
  "fixed_point k n = dec (n div 10 ^ k) @ CHR ''.'' # pad k (n mod 10 ^ k)"

fun sign_text :: "dbl \<Rightarrow> string" where
  "sign_text x = (if negative x then ''-'' else '''')"

text \<open>\<open>%f\<close>: six digits after the point, the exact value rounded half to even.\<close>

fun fmt_f :: "dbl \<Rightarrow> string" where
  "fmt_f PInf = ''inf''"
| "fmt_f NInf = ''-inf''"
| "fmt_f NaN = ''nan''"
| "fmt_f x = sign_text x @ fixed_point 6 (nat (half_even (\<bar>val x\<bar> * 10 ^ 6)))"

text \<open>\<open>%g\<close>: six significant digits, trailing zeros dropped, an exponent outside \<open>[-4, 6)\<close>.\<close>

definition pow10 :: "int \<Rightarrow> rat" where
  "pow10 e = (if 0 \<le> e then 10 ^ nat e else 1 / 10 ^ nat (- e))"

definition ilog10 :: "nat \<Rightarrow> nat" where
  "ilog10 n = length (dec n) - 1"

definition exponent10_of :: "rat \<Rightarrow> int" where
  "exponent10_of a =
     (if 1 \<le> a then int (ilog10 (nat \<lfloor>a\<rfloor>)) else - int (Suc (ilog10 (nat (\<lceil>1 / a\<rceil> - 1)))))"

definition drop_zeros :: "string \<Rightarrow> string" where
  "drop_zeros ds = rev (dropWhile (\<lambda>c. c = CHR ''0'') (rev ds))"

definition with_point :: "string \<Rightarrow> string \<Rightarrow> string" where
  "with_point ds fs = (let fs = drop_zeros fs in if fs = [] then ds else ds @ CHR ''.'' # fs)"

definition six_digits :: "rat \<Rightarrow> string \<times> int" where
  "six_digits a =
     (let e = exponent10_of a; n = nat (half_even (a / pow10 (e - 5)))
      in if n = 10 ^ 6 then (dec (10 ^ 5), e + 1) else (dec n, e))"

definition fmt_g_pos :: "rat \<Rightarrow> string" where
  "fmt_g_pos a =
     (let (ds, e) = six_digits a
      in if e < - 4 \<or> 6 \<le> e
         then with_point (take 1 ds) (drop 1 ds) @ CHR ''e'' # (if e < 0 then ''-'' else ''+'') @
           pad 2 (nat \<bar>e\<bar>)
         else if 0 \<le> e then with_point (take (nat e + 1) ds) (drop (nat e + 1) ds)
         else with_point ''0'' (replicate (nat (- e) - 1) CHR ''0'' @ ds))"

fun fmt_g :: "dbl \<Rightarrow> string" where
  "fmt_g PInf = ''inf''"
| "fmt_g NInf = ''-inf''"
| "fmt_g NaN = ''nan''"
| "fmt_g x = sign_text x @ (if val x = 0 then ''0'' else fmt_g_pos \<bar>val x\<bar>)"

subsection \<open>strtod\<close>

text \<open>
  The argument is the text up to its NUL. The result is the number, what \<open>endptr\<close> points at (the whole
  text when there is no number) and whether \<open>errno\<close> is set to \<open>ERANGE\<close>.
\<close>

definition is_digit :: "char \<Rightarrow> bool" where
  "is_digit c \<longleftrightarrow> (48 :: nat) \<le> of_char c \<and> of_char c \<le> (57 :: nat)"

definition lower :: "char \<Rightarrow> char" where
  "lower c = (if (65 :: nat) \<le> of_char c \<and> of_char c \<le> (90 :: nat) then char_of (of_char c + (32 :: nat)) else c)"

definition is_alnum :: "char \<Rightarrow> bool" where
  "is_alnum c \<longleftrightarrow> is_digit c \<or> ((97 :: nat) \<le> of_char (lower c) \<and> of_char (lower c) \<le> (122 :: nat))"

definition is_hex :: "char \<Rightarrow> bool" where
  "is_hex c \<longleftrightarrow> is_digit c \<or> ((97 :: nat) \<le> of_char (lower c) \<and> of_char (lower c) \<le> (102 :: nat))"

definition digit_value :: "char \<Rightarrow> nat" where
  "digit_value c = (if is_digit c then of_char c - 48 else of_char (lower c) - 87)"

definition number_of :: "nat \<Rightarrow> string \<Rightarrow> nat" where
  "number_of base ds = foldl (\<lambda>n c. base * n + digit_value c) 0 ds"

definition begins_ci :: "string \<Rightarrow> string \<Rightarrow> bool" where
  "begins_ci w s \<longleftrightarrow> map lower (take (length w) s) = w"

text \<open>Digits with at most one point among them: the digits before and after it, and the rest.\<close>

definition scan_digits :: "(char \<Rightarrow> bool) \<Rightarrow> string \<Rightarrow> (string \<times> string \<times> string) option" where
  "scan_digits dig s =
     (let ip = takeWhile dig s; s1 = dropWhile dig s;
          (fp, s2) = (if s1 \<noteq> [] \<and> hd s1 = CHR ''.''
                      then (takeWhile dig (tl s1), dropWhile dig (tl s1)) else ([], s1))
      in if ip = [] \<and> fp = [] then None else Some (ip, fp, s2))"

definition scan_exponent :: "char \<Rightarrow> string \<Rightarrow> int \<times> string" where
  "scan_exponent e s =
     (if s = [] \<or> lower (hd s) \<noteq> e then (0, s)
      else let s1 = tl s;
               ng = (s1 \<noteq> [] \<and> hd s1 = CHR ''-'');
               s2 = (if s1 \<noteq> [] \<and> (hd s1 = CHR ''-'' \<or> hd s1 = CHR ''+'') then tl s1 else s1);
               ds = takeWhile is_digit s2; n = int (number_of 10 ds)
           in if ds = [] then (0, s) else (if ng then - n else n, dropWhile is_digit s2))"

definition nearest :: "bool \<Rightarrow> rat \<Rightarrow> dbl \<times> bool" where
  "nearest ng a =
     (if a = 0 then (zero ng, False)
      else let x = rnd (if ng then - a else a)
           in (x, \<not> finite_dbl x \<or> (a < pow2 (- 1022) \<and> \<bar>val x\<bar> \<noteq> a)))"

definition scan_number :: "bool \<Rightarrow> string \<Rightarrow> (dbl \<times> string \<times> bool) option" where
  "scan_number ng s =
     (case (if begins_ci ''0x'' s then scan_digits is_hex (drop 2 s) else None) of
        Some (ip, fp, s1) \<Rightarrow>
          (let (e, s2) = scan_exponent CHR ''p'' s1;
               (x, erange) = nearest ng
                 (of_nat (number_of 16 (ip @ fp)) * pow2 (e - 4 * int (length fp)))
           in Some (x, s2, erange))
      | None \<Rightarrow>
          (case scan_digits is_digit s of
             None \<Rightarrow> None
           | Some (ip, fp, s1) \<Rightarrow>
               (let (e, s2) = scan_exponent CHR ''e'' s1;
                    (x, erange) = nearest ng
                      (of_nat (number_of 10 (ip @ fp)) * pow10 (e - int (length fp)))
                in Some (x, s2, erange))))"

definition after_nan :: "string \<Rightarrow> string" where
  "after_nan s =
     (let s1 = dropWhile (\<lambda>c. is_alnum c \<or> c = CHR ''_'') (tl s)
      in if s \<noteq> [] \<and> hd s = CHR ''('' \<and> s1 \<noteq> [] \<and> hd s1 = CHR '')'' then tl s1 else s)"

definition is_blank :: "char \<Rightarrow> bool" where
  "is_blank c \<longleftrightarrow> c = CHR '' '' \<or> ((9 :: nat) \<le> of_char c \<and> of_char c \<le> (13 :: nat))"

definition strtod :: "string \<Rightarrow> dbl \<times> string \<times> bool" where
  "strtod s =
     (let s1 = dropWhile is_blank s;
          ng = (s1 \<noteq> [] \<and> hd s1 = CHR ''-'');
          s2 = (if s1 \<noteq> [] \<and> (hd s1 = CHR ''-'' \<or> hd s1 = CHR ''+'') then tl s1 else s1)
      in if begins_ci ''infinity'' s2 then (infinity ng, drop 8 s2, False)
         else if begins_ci ''inf'' s2 then (infinity ng, drop 3 s2, False)
         else if begins_ci ''nan'' s2 then (NaN, after_nan (drop 3 s2), False)
         else case scan_number ng s2 of
           None \<Rightarrow> (Fin 0, s, False)
         | Some r \<Rightarrow> r)"

text \<open>The text a C string holds.\<close>

definition until_nul :: "string \<Rightarrow> string" where
  "until_nul s = takeWhile (\<lambda>c. c \<noteq> CHR 0x00) s"

end
