(* ===== verification/Double_Facts.thy ===== *)
theory Double_Facts
  imports Doubles
begin

text \<open>
  Facts about \<open>Doubles\<close>: rounding is to nearest and exact on small integers; what \<open>%f\<close> prints is read
  back by \<open>strtod\<close>.
\<close>

subsection \<open>Rounding is to nearest\<close>

lemma half_even_error: "\<bar>of_int (half_even x) - x\<bar> \<le> 1 / 2"
proof -
  define n where "n = \<lfloor>x\<rfloor>"
  have "of_int n \<le> x" "x < of_int n + 1" unfolding n_def by linarith+
  then show ?thesis
    unfolding half_even_def Let_def n_def [symmetric] by (auto simp: abs_if)
qed

lemma half_even_of_int [simp]: "half_even (of_int n) = n"
  by (simp add: half_even_def)

lemma half_even_nonneg: "0 \<le> x \<Longrightarrow> 0 \<le> half_even x"
  by (auto simp: half_even_def Let_def)

lemma ilog2_bounds: "0 < n \<Longrightarrow> 2 ^ ilog2 n \<le> n \<and> n < 2 ^ Suc (ilog2 n)"
proof (induction n rule: ilog2.induct)
  case (1 n)
  show ?case
  proof (cases "n < 2")
    case True
    then have "n = 1" using 1 by simp
    then show ?thesis by (simp add: ilog2.simps)
  next
    case False
    then show ?thesis using 1 by (simp add: ilog2.simps [of n]) linarith
  qed
qed

lemma pow2_pos [simp]: "0 < pow2 e"
  by (simp add: pow2_def)

lemma pow2_add_1: "pow2 (e + 1) = 2 * pow2 e"
proof (cases "0 \<le> e")
  case True
  then show ?thesis by (simp add: pow2_def nat_add_distrib)
next
  case False
  then have "nat (- e) = Suc (nat (- e - 1))" by simp
  with False show ?thesis
    by (cases "e = -1") (simp_all add: pow2_def)
qed

lemma pow2_of_nat: "pow2 (int n) = 2 ^ n"
  by (simp add: pow2_def)

lemma pow2_minus: "pow2 (- int n) = 1 / 2 ^ n"
  by (cases "n = 0") (simp_all add: pow2_def)

lemma exponent_of_bounds:
  assumes "0 < a"
  shows "pow2 (exponent_of a) \<le> a \<and> a < pow2 (exponent_of a + 1)"
proof (cases "1 \<le> a")
  case True
  let ?n = "nat \<lfloor>a\<rfloor>"
  have n: "0 < ?n" using True by simp
  have "of_nat (2 ^ ilog2 ?n) \<le> (of_nat ?n :: rat)" "(of_nat (Suc ?n) :: rat) \<le> of_nat (2 ^ Suc (ilog2 ?n))"
    using ilog2_bounds [OF n] unfolding of_nat_le_iff by auto
  moreover have "of_nat ?n \<le> a" "a < of_nat (Suc ?n)"
    using True by (simp_all add: of_nat_nat) linarith
  ultimately have "of_nat (2 ^ ilog2 ?n) \<le> a" "a < of_nat (2 ^ Suc (ilog2 ?n))" by linarith+
  then show ?thesis
    using True by (simp only: exponent_of_def if_True pow2_add_1 pow2_of_nat) simp
next
  case False
  define n where "n = nat (\<lceil>1 / a\<rceil> - 1)"
  have "1 < 1 / a" using False assms by simp
  then have c: "1 < \<lceil>1 / a\<rceil>" by (simp add: less_ceiling_iff)
  have n: "0 < n" using c by (simp add: n_def)
  have nr: "of_nat n = (of_int \<lceil>1 / a\<rceil> :: rat) - 1" unfolding n_def by (subst of_nat_nat) (use assms c in simp_all)
  have "of_nat (2 ^ ilog2 n) \<le> (of_nat n :: rat)" "(of_nat (Suc n) :: rat) \<le> of_nat (2 ^ Suc (ilog2 n))"
    using ilog2_bounds [OF n] unfolding of_nat_le_iff by auto
  moreover have "of_nat n < 1 / a" "1 / a \<le> of_nat (Suc n)"
    unfolding of_nat_Suc nr by linarith+
  ultimately have "of_nat (2 ^ ilog2 n) < 1 / a" and "1 / a \<le> of_nat (2 ^ Suc (ilog2 n))"
    by linarith+
  then have lo: "2 ^ ilog2 n < 1 / a" and hi: "1 / a \<le> 2 * 2 ^ ilog2 n"
    by simp_all
  have e: "exponent_of a = - int (Suc (ilog2 n))" using False by (simp add: exponent_of_def n_def)
  have e1: "exponent_of a + 1 = - int (ilog2 n)" by (simp add: e)
  have "1 / (2 * 2 ^ ilog2 n) \<le> a" using hi assms by (simp add: field_simps)
  moreover have "a < 1 / 2 ^ ilog2 n" using lo assms by (simp add: field_simps)
  ultimately show ?thesis unfolding e1 unfolding e pow2_minus by simp
qed

lemma ulp_pos [simp]: "0 < ulp a"
  by (simp add: ulp_def)

lemma rnd_nearest:
  assumes "finite_dbl (rnd r)"
  shows "\<bar>val (rnd r) - r\<bar> \<le> ulp \<bar>r\<bar> / 2"
proof -
  let ?u = "ulp \<bar>r\<bar>"
  let ?a = "of_int (half_even (\<bar>r\<bar> / ?u)) * ?u"
  let ?d = "of_int (half_even (\<bar>r\<bar> / ?u)) - \<bar>r\<bar> / ?u"
  have u: "0 < ?u" by (rule ulp_pos)
  have "\<bar>?d\<bar> * ?u \<le> 1 / 2 * ?u"
    by (rule mult_right_mono [OF half_even_error less_imp_le [OF u]])
  moreover have "\<bar>?d\<bar> * ?u = \<bar>?d * ?u\<bar>" by (simp only: abs_mult abs_of_pos [OF u])
  moreover have "?d * ?u = ?a - \<bar>r\<bar>" using less_imp_neq [OF u] by (simp add: left_diff_distrib)
  ultimately have "\<bar>?a - \<bar>r\<bar>\<bar> \<le> ?u / 2" by simp
  moreover have "0 \<le> ?a"
    by (intro mult_nonneg_nonneg less_imp_le [OF u])
      (use u in \<open>simp only: of_int_0_le_iff half_even_nonneg divide_nonneg_pos abs_ge_zero\<close>)
  ultimately have near: "\<bar>?a - \<bar>r\<bar>\<bar> \<le> ?u / 2" "0 \<le> ?a" by simp_all
  define a where "a = ?a"
  have "rnd r = (if pow2 1024 \<le> a then infinity (r < 0) else if a = 0 then zero (r < 0)
      else Fin (if r < 0 then - a else a))"
    by (simp add: rnd_def a_def Let_def)
  moreover have "val (zero b) = 0" for b by (simp add: zero_def)
  moreover have "\<not> finite_dbl (infinity b)" for b by (simp add: infinity_def)
  ultimately have "val (rnd r) = (if r < 0 then - a else a)" using assms by auto
  then show ?thesis
    using near unfolding a_def [symmetric] by (simp add: abs_if split: if_splits)
qed

lemma rnd_exact:
  assumes "r \<noteq> 0" and "\<bar>r\<bar> = of_int k * ulp \<bar>r\<bar>" and "\<bar>r\<bar> < pow2 1024"
  shows "rnd r = Fin r"
proof -
  have u: "ulp \<bar>r\<bar> \<noteq> 0" using less_imp_neq [OF ulp_pos [of "\<bar>r\<bar>"]] by (rule not_sym)
  have "\<bar>r\<bar> / ulp \<bar>r\<bar> = of_int k" using assms(2) u by (simp add: nonzero_divide_eq_eq)
  then have "of_int (half_even (\<bar>r\<bar> / ulp \<bar>r\<bar>)) * ulp \<bar>r\<bar> = \<bar>r\<bar>"
    using assms(2) by (simp only: half_even_of_int)
  then show ?thesis
    using assms(1,3) unfolding rnd_def Let_def by (cases "r < 0") (simp_all only: if_True if_False, simp_all)
qed

lemma pow2_mono: "d \<le> e \<Longrightarrow> pow2 d \<le> pow2 e"
proof (induction "nat (e - d)" arbitrary: e)
  case (Suc n)
  then have "pow2 d \<le> pow2 (e - 1)" by simp
  also have "\<dots> \<le> pow2 e" using pow2_add_1 [of "e - 1"] pow2_pos [of "e - 1"] by (simp del: pow2_pos)
  finally show ?case .
qed simp

lemma pow2_split: "pow2 (d + int n) = pow2 d * 2 ^ n"
proof (induction n)
  case (Suc n)
  have "d + int (Suc n) = (d + int n) + 1" by simp
  then show ?case using Suc by (simp only: pow2_add_1) simp
qed simp

lemma rnd_int_small:
  assumes "n \<noteq> 0" and "\<bar>n\<bar> < 2 ^ 53"
  shows "rnd (of_int n) = Fin (of_int n)"
proof -
  let ?a = "\<bar>of_int n :: rat\<bar>"
  let ?e = "exponent_of ?a"
  have a: "1 \<le> ?a" using assms(1) by simp
  have e0: "0 \<le> ?e" using a by (simp add: exponent_of_def)
  have lt: "?a < pow2 53"
  proof -
    have "of_int \<bar>n\<bar> < (of_int (2 ^ 53) :: rat)" using assms(2) by (simp only: of_int_less_iff)
    then show ?thesis by (simp add: pow2_def)
  qed
  have "pow2 ?e \<le> ?a" using exponent_of_bounds [of ?a] a by simp
  then have "\<not> 53 \<le> ?e" using lt pow2_mono [of 53 ?e] by linarith
  then have k: "?e + int (nat (52 - ?e)) = 52" by simp
  define k where "k = nat (52 - ?e)"
  show ?thesis
  proof (rule rnd_exact)
    show "?a < pow2 1024" using lt pow2_mono [of 53 1024] by linarith
    have "?e - 52 + int k = 0" using k by (simp add: k_def)
    then have one: "pow2 (?e - 52) * 2 ^ k = 1"
      using pow2_split [of "?e - 52" k] by (simp add: pow2_def)
    have "ulp ?a = pow2 (?e - 52)" using e0 by (simp add: ulp_def)
    then have "of_int (\<bar>n\<bar> * 2 ^ k) * ulp ?a = ?a * (pow2 (?e - 52) * 2 ^ k)"
      by (simp add: algebra_simps)
    then show "?a = of_int (\<bar>n\<bar> * 2 ^ k) * ulp ?a" by (simp only: one mult_1_right)
  qed (use assms in simp)
qed

lemma of_integer_small: "\<bar>n\<bar> < 2 ^ 53 \<Longrightarrow> of_integer n = Fin (of_int n)"
  by (simp add: of_integer_def rnd_int_small)

subsection \<open>Decimal text\<close>

lemma is_digit_dec: "list_all is_digit (dec n)"
proof (induction n rule: dec.induct)
  case (1 n)
  have "is_digit (char_of (48 + d))" if "d < 10" for d :: nat
    using that by (simp add: is_digit_def)
  then show ?case using 1 by (subst dec.simps) auto
qed

lemma dec_not_Nil [simp]: "dec n \<noteq> []"
  by (subst dec.simps) simp

lemma digit_value_char: "d < 10 \<Longrightarrow> digit_value (char_of (48 + d :: nat)) = d"
  by (simp add: digit_value_def is_digit_def)

lemma number_of_snoc: "number_of b (ds @ [c]) = b * number_of b ds + digit_value c"
  by (simp add: number_of_def)

lemma number_of_dec [simp]: "number_of 10 (dec n) = n"
proof (induction n rule: dec.induct)
  case (1 n)
  show ?case
  proof (cases "n < 10")
    case True
    then show ?thesis by (simp add: dec.simps number_of_def digit_value_char)
  next
    case False
    then show ?thesis
      using 1 by (subst dec.simps) (simp add: number_of_snoc digit_value_char)
  qed
qed

lemma dec_inject [simp]: "dec m = dec n \<longleftrightarrow> m = n"
  by (metis number_of_dec)

subsection \<open>Reading printed numbers back\<close>

definition ends_number :: "string \<Rightarrow> bool" where
  "ends_number s \<longleftrightarrow> s = [] \<or> (\<not> is_digit (hd s) \<and> hd s \<noteq> CHR ''.'' \<and> lower (hd s) \<notin> {CHR ''e'', CHR ''x''})"

lemma digit_facts:
  assumes "is_digit c"
  shows "\<not> is_blank c" "c \<noteq> CHR ''-''" "c \<noteq> CHR ''+''" "lower c = c" "c \<noteq> CHR ''x''" "c \<noteq> CHR ''i''"
    "c \<noteq> CHR ''n''" "c \<noteq> CHR ''.''"
  using assms by (auto simp: is_digit_def is_blank_def lower_def)

lemma takeWhile_run: "list_all P xs \<Longrightarrow> ys = [] \<or> \<not> P (hd ys) \<Longrightarrow> takeWhile P (xs @ ys) = xs"
  by (induction xs) (cases ys, auto)

lemma dropWhile_run: "list_all P xs \<Longrightarrow> ys = [] \<or> \<not> P (hd ys) \<Longrightarrow> dropWhile P (xs @ ys) = ys"
  by (induction xs) (cases ys, auto)

lemma scan_exponent_none: "ends_number s \<Longrightarrow> scan_exponent CHR ''e'' s = (0, s)"
  by (auto simp: scan_exponent_def ends_number_def)

lemma scan_number_digits:
  assumes "list_all is_digit ip" and "ip \<noteq> []" and "ends_number rest"
  shows "scan_number ng (ip @ rest) =
    (case nearest ng (of_nat (number_of 10 ip)) of (x, erange) \<Rightarrow> Some (x, rest, erange))"
proof -
  have "\<not> begins_ci ''0x'' (ip @ rest)"
    using assms digit_facts(4,5)
    by (cases ip; cases "tl ip"; cases rest)
      (auto simp: begins_ci_def ends_number_def list_all_iff)
  moreover have "takeWhile is_digit (ip @ rest) = ip" "dropWhile is_digit (ip @ rest) = rest"
    using assms by (auto simp: ends_number_def intro!: takeWhile_run dropWhile_run)
  then have "scan_digits is_digit (ip @ rest) = Some (ip, [], rest)"
    using assms by (auto simp: scan_digits_def ends_number_def)
  ultimately show ?thesis
    using scan_exponent_none [OF assms(3)] by (simp add: scan_number_def pow10_def split: prod.split)
qed

lemma scan_number_point:
  assumes "list_all is_digit ip" and "ip \<noteq> []" and "list_all is_digit fp" and "ends_number rest"
  shows "scan_number ng (ip @ CHR ''.'' # fp @ rest) =
    (case nearest ng (of_nat (number_of 10 (ip @ fp)) * pow10 (- int (length fp))) of
       (x, erange) \<Rightarrow> Some (x, rest, erange))"
proof -
  have "\<not> begins_ci ''0x'' (ip @ CHR ''.'' # fp @ rest)"
    using assms digit_facts(4,5)
    by (cases ip; cases "tl ip") (auto simp: begins_ci_def list_all_iff lower_def)
  moreover have "\<not> is_digit CHR ''.''" by (simp add: is_digit_def)
  then have "takeWhile is_digit (ip @ CHR ''.'' # fp @ rest) = ip"
    "dropWhile is_digit (ip @ CHR ''.'' # fp @ rest) = CHR ''.'' # fp @ rest"
    using assms by (simp_all add: takeWhile_run dropWhile_run)
  moreover have "takeWhile is_digit (fp @ rest) = fp" "dropWhile is_digit (fp @ rest) = rest"
    using assms by (auto simp: ends_number_def intro!: takeWhile_run dropWhile_run)
  ultimately show ?thesis
    using scan_exponent_none [OF assms(4)] assms(2)
    by (simp add: scan_number_def scan_digits_def split: prod.split)
qed

lemma strtod_number:
  assumes "scan_number (sg = ''-'') (ds @ rest) = Some r" and "ds \<noteq> []" and "is_digit (hd ds)"
    and "sg = [] \<or> sg = ''-''"
  shows "strtod (sg @ ds @ rest) = r"
proof -
  obtain c cs where ds: "ds = c # cs" using assms(2) by (cases ds) auto
  then have c: "is_digit c" using assms(3) by simp
  have "\<not> begins_ci (x # xs) (c # cs @ rest)" if "x = CHR ''i'' \<or> x = CHR ''n''" for x xs
    using that digit_facts [OF c] by (auto simp: begins_ci_def)
  then have *: "\<not> begins_ci ''infinity'' (c # cs @ rest)" "\<not> begins_ci ''inf'' (c # cs @ rest)"
    "\<not> begins_ci ''nan'' (c # cs @ rest)" by simp_all
  have "\<not> is_blank CHR ''-''" by (simp add: is_blank_def)
  then show ?thesis
    using assms(1,4) * digit_facts [OF c] unfolding ds
    by (auto simp: strtod_def Let_def)
qed

lemma list_all_pad: "list_all is_digit (pad k n)"
  using is_digit_dec [of n] by (auto simp: pad_def is_digit_def list_all_iff)

lemma length_dec_le: "n < 10 ^ k \<Longrightarrow> 0 < k \<Longrightarrow> length (dec n) \<le> k"
proof (induction n arbitrary: k rule: dec.induct)
  case (1 n)
  show ?case
  proof (cases "n < 10")
    case True
    then show ?thesis using 1 by (simp add: dec.simps [of n])
  next
    case False
    then have k: "1 < k" using 1 by (cases "k = 1") auto
    have "n div 10 < 10 ^ (k - 1)"
      using "1.prems"(1) k by (simp add: power_eq_if less_mult_imp_div_less mult.commute)
    then have "length (dec (n div 10)) \<le> k - 1" using 1 False k by simp
    then show ?thesis using False k by (subst dec.simps) simp
  qed
qed

lemma length_pad: "n < 10 ^ k \<Longrightarrow> 0 < k \<Longrightarrow> length (pad k n) = k"
  using length_dec_le [of n k] by (simp add: pad_def)

lemma number_of_append: "number_of b (xs @ ys) = number_of b xs * b ^ length ys + number_of b ys"
proof (induction ys rule: rev_induct)
  case (snoc y ys)
  then show ?case
    unfolding append_assoc [symmetric] number_of_snoc by (simp add: algebra_simps)
qed (simp add: number_of_def)

lemma number_of_pad [simp]: "number_of 10 (pad k n) = n"
proof -
  have "number_of 10 (replicate m CHR ''0'') = 0" for m
    by (induction m) (simp_all add: number_of_def digit_value_def is_digit_def)
  then show ?thesis by (simp add: pad_def number_of_append)
qed

text \<open>What \<open>strtod\<close> makes of a number printed with \<open>k\<close> decimals.\<close>

lemma strtod_fixed_point:
  assumes "0 < k" and "ends_number rest" and "sg = [] \<or> sg = ''-''"
  shows "strtod (sg @ fixed_point k m @ rest) =
    (case nearest (sg = ''-'') (of_nat m / 10 ^ k) of (x, erange) \<Rightarrow> (x, rest, erange))"
proof -
  let ?ip = "dec (m div 10 ^ k)" and ?fp = "pad k (m mod 10 ^ k)"
  have "number_of 10 (?ip @ ?fp) = m"
    using assms(1) length_pad [of "m mod 10 ^ k" k] div_mult_mod_eq [of m "10 ^ k"]
    by (simp add: number_of_append del: div_mult_mod_eq)
  moreover have "pow10 (- int (length ?fp)) = 1 / 10 ^ k"
    using assms(1) length_pad [of "m mod 10 ^ k" k] by (simp add: pow10_def)
  ultimately have "scan_number (sg = ''-'') (?ip @ CHR ''.'' # ?fp @ rest) =
      (case nearest (sg = ''-'') (of_nat m / 10 ^ k) of (x, erange) \<Rightarrow> Some (x, rest, erange))"
    using assms(2) is_digit_dec list_all_pad by (subst scan_number_point) simp_all
  then show ?thesis
    using strtod_number [of sg "?ip @ CHR ''.'' # ?fp" rest] assms(3) is_digit_dec [of "m div 10 ^ k"]
    by (cases "nearest (sg = ''-'') (of_nat m / 10 ^ k)"; cases ?ip) (auto simp: fixed_point_def)
qed

lemma fmt_f_eq:
  assumes "finite_dbl x"
  shows "fmt_f x = (if negative x then ''-'' else []) @ fixed_point 6 (nat (half_even (\<bar>val x\<bar> * 10 ^ 6)))"
  using assms by (cases x) auto

subsection \<open>Numbers out of range\<close>

lemma half_even_ge: "of_int k \<le> x \<Longrightarrow> k \<le> half_even x"
proof -
  assume "of_int k \<le> x"
  then have "k \<le> \<lfloor>x\<rfloor>" by (simp add: le_floor_iff)
  then show ?thesis by (simp add: half_even_def Let_def)
qed

lemma rnd_overflow:
  assumes "pow2 1024 \<le> r"
  shows "rnd r = PInf"
proof -
  have r: "0 < r" using assms pow2_pos [of 1024] by (rule less_le_trans [rotated])
  let ?e = "exponent_of r"
  have "\<not> ?e + 1 \<le> 1024"
  proof
    assume "?e + 1 \<le> 1024"
    then have "pow2 (?e + 1) \<le> pow2 1024" by (rule pow2_mono)
    then show False using exponent_of_bounds [OF r] assms by linarith
  qed
  then have e: "1024 \<le> ?e" by simp
  let ?u = "ulp \<bar>r\<bar>"
  have u: "?u = pow2 (?e - 52)" using e r by (simp add: ulp_def)
  have "pow2 ?e = 2 ^ 52 * ?u" using pow2_split [of "?e - 52" 52] by (simp add: u)
  then have "of_int (2 ^ 52) * ?u \<le> r" using exponent_of_bounds [OF r] by simp
  then have "of_int (2 ^ 52) \<le> \<bar>r\<bar> / ?u" using r ulp_pos [of "\<bar>r\<bar>"] by (simp add: pos_le_divide_eq)
  then have "2 ^ 52 \<le> half_even (\<bar>r\<bar> / ?u)" by (rule half_even_ge)
  then have "(of_int (2 ^ 52) :: rat) \<le> of_int (half_even (\<bar>r\<bar> / ?u))" by (simp only: of_int_le_iff)
  then have "of_int (2 ^ 52) * ?u \<le> of_int (half_even (\<bar>r\<bar> / ?u)) * ?u"
    by (rule mult_right_mono) (rule less_imp_le [OF ulp_pos])
  moreover have "pow2 1024 \<le> pow2 ?e" using e by (rule pow2_mono)
  then have "pow2 1024 \<le> of_int (2 ^ 52) * ?u" using \<open>pow2 ?e = 2 ^ 52 * ?u\<close> by simp
  ultimately have "pow2 1024 \<le> of_int (half_even (\<bar>r\<bar> / ?u)) * ?u" by (rule order_trans [rotated])
  then show ?thesis using r by (simp add: rnd_def Let_def infinity_def)
qed

lemma strtod_dec:
  assumes "ends_number rest"
  shows "strtod (dec n @ rest) = (case nearest False (of_nat n) of (x, erange) \<Rightarrow> (x, rest, erange))"
proof -
  have "scan_number ([] = ''-'') (dec n @ rest) =
      (case nearest False (of_nat n) of (x, erange) \<Rightarrow> Some (x, rest, erange))"
    using scan_number_digits [OF is_digit_dec _ assms, of n False] by simp
  then show ?thesis
    using strtod_number [of "[]" "dec n" rest] is_digit_dec [of n]
    by (cases "nearest False (of_nat n)"; cases "dec n") auto
qed

subsection \<open>Decimals\<close>

definition decimal :: "string \<Rightarrow> bool" where
  "decimal s \<longleftrightarrow> takeWhile is_digit s \<noteq> [] \<and>
     (let r = dropWhile is_digit s in r = [] \<or> hd r = CHR ''.'' \<and> list_all is_digit (tl r))"

lemma strtod_decimal:
  assumes "decimal s" and "ends_number rest"
  shows "strtod (s @ rest) = (fst (strtod s), rest, snd (snd (strtod s)))"
proof -
  let ?ip = "takeWhile is_digit s" and ?r = "dropWhile is_digit s"
  have ip: "?ip \<noteq> []" "list_all is_digit ?ip" "is_digit (hd ?ip)"
    using assms(1) set_takeWhileD [of _ is_digit s]
    by (auto simp: decimal_def list_all_iff Let_def)
  have s: "?ip @ ?r = s" by simp
  have nil: "ends_number []" by (simp add: ends_number_def)
  show ?thesis
  proof (cases "?r = []")
    case True
    then have "s = ?ip" by (metis append_Nil2 s)
    then obtain ip where s: "s = ip" and "ip \<noteq> []" "list_all is_digit ip" "is_digit (hd ip)" using ip by metis
    then show ?thesis
      using strtod_number [of "[]" ip rest] strtod_number [of "[]" ip "[]"]
        scan_number_digits [of ip rest False] scan_number_digits [of ip "[]" False] assms(2) nil
      by (auto split: prod.splits)
  next
    case False
    then obtain fp where r: "?r = CHR ''.'' # fp" and fp: "list_all is_digit fp"
      using assms(1) by (cases ?r) (auto simp: decimal_def Let_def)
    obtain ip where s: "s = ip @ CHR ''.'' # fp" and ip: "ip \<noteq> []" "list_all is_digit ip" "is_digit (hd ip)"
      using ip r s by metis
    have "scan_number False (ip @ CHR ''.'' # fp @ u) =
        (case nearest False (of_nat (number_of 10 (ip @ fp)) * pow10 (- int (length fp))) of
           (x, erange) \<Rightarrow> Some (x, u, erange))" if "ends_number u" for u
      using scan_number_point [OF ip(2,1) fp that, of False] .
    from this [OF assms(2)] this [OF nil] show ?thesis
      using strtod_number [of "[]" "ip @ CHR ''.'' # fp" rest] strtod_number [of "[]" "ip @ CHR ''.'' # fp" "[]"] ip
      by (auto simp: s split: prod.splits)
  qed
qed

lemma strtod_blank: "strtod s = (x, r, e) \<Longrightarrow> r \<noteq> s \<Longrightarrow> strtod (CHR '' '' # s) = (x, r, e)"
proof -
  assume *: "strtod s = (x, r, e)" "r \<noteq> s"
  define s1 where "s1 = dropWhile is_blank s"
  have eq: "dropWhile is_blank (CHR '' '' # s) = s1" by (simp add: is_blank_def s1_def)
  define ng where "ng = (s1 \<noteq> [] \<and> hd s1 = CHR ''-'')"
  define s2 where "s2 = (if s1 \<noteq> [] \<and> (hd s1 = CHR ''-'' \<or> hd s1 = CHR ''+'') then tl s1 else s1)"
  show ?thesis
    using * unfolding strtod_def eq s1_def [symmetric] Let_def ng_def [symmetric] s2_def [symmetric]
    by (cases "scan_number ng s2") (simp_all split: if_split_asm)
qed

lemma decimal_not_Nil [simp]: "decimal s \<Longrightarrow> s \<noteq> []"
  by (auto simp: decimal_def)

lemma decimal_chars: "decimal s \<Longrightarrow> c \<in> set s \<Longrightarrow> is_digit c \<or> c = CHR ''.''"
proof -
  assume *: "decimal s" "c \<in> set s"
  define u where "u = dropWhile is_digit s"
  have u: "u = [] \<or> hd u = CHR ''.'' \<and> list_all is_digit (tl u)"
    using *(1) unfolding decimal_def Let_def u_def by blast
  have "c \<in> set (takeWhile is_digit s) \<or> c \<in> set u"
    using *(2) unfolding u_def Un_iff [symmetric] set_append [symmetric] takeWhile_dropWhile_id .
  moreover have "c \<in> set u \<Longrightarrow> is_digit c \<or> c = CHR ''.''"
    using u by (cases u) (auto simp: list_all_iff)
  ultimately show ?thesis using set_takeWhileD by metis
qed

lemma decimal_has_no: "decimal s \<Longrightarrow> \<not> is_digit c \<Longrightarrow> c \<noteq> CHR ''.'' \<Longrightarrow> c \<notin> set s"
  using decimal_chars by blast

lemma strtod_small:
  assumes "0 < n" and "n < 2 ^ 53"
  shows "strtod (dec n) = (Fin (of_nat n), [], False)"
proof -
  have "rnd (of_nat n) = Fin (of_nat n)" using rnd_int_small [of "int n"] assms by simp
  moreover have "\<not> (of_nat n :: rat) < pow2 (- 1022)"
  proof -
    have "pow2 (- 1022) \<le> 1" using pow2_mono [of "- 1022" 0] by (simp add: pow2_def)
    also have "1 \<le> (of_nat n :: rat)" using assms(1) by simp
    finally show ?thesis by simp
  qed
  ultimately show ?thesis
    using strtod_dec [of "[]" n] assms(1) by (simp add: nearest_def ends_number_def)
qed

subsection \<open>Finite and whole numbers\<close>

lemma dlt_finite: "finite_dbl x \<Longrightarrow> finite_dbl y \<Longrightarrow> dlt x y \<longleftrightarrow> val x < val y"
  by (cases x; cases y) (simp_all add: dlt_def)

lemma dle_finite: "finite_dbl x \<Longrightarrow> finite_dbl y \<Longrightarrow> dle x y \<longleftrightarrow> val x \<le> val y"
  by (cases x; cases y) (auto simp: dle_def dlt_def deq_def)

lemma val_zero [simp]: "val (zero b) = 0" "finite_dbl (zero b)"
  by (simp_all add: zero_def)

lemma sub_int:
  assumes "\<bar>m - n\<bar> < 2 ^ 53"
  shows "sub (Fin (of_int m)) (Fin (of_int n)) = Fin (of_int (m - n))"
proof -
  consider "n = 0" | "n \<noteq> 0" by blast
  then show ?thesis
  proof cases
    case 1
    then show ?thesis using rnd_int_small [of m] assms by (simp add: sub_def add_def zero_def)
  next
    case 2
    then have "neg (Fin (of_int n)) = Fin (- of_int n)" by simp
    then show ?thesis
      using rnd_int_small [of "m - n"] assms by (simp add: sub_def add_def zero_def)
  qed
qed

lemma add_int:
  assumes "\<bar>m + n\<bar> < 2 ^ 53"
  shows "add (Fin (of_int m)) (Fin (of_int n)) = Fin (of_int (m + n))"
  using rnd_int_small [of "m + n"] assms
  by (auto simp add: add_def zero_def simp flip: of_int_add)

lemma round_dbl_int [simp]: "round_dbl (Fin (of_int n)) = Fin (of_int n)"
proof -
  have "\<lfloor>of_int k + 1 / 2 :: rat\<rfloor> = k" for k by linarith
  from this [of "\<bar>n\<bar>"] show ?thesis by (auto simp: zero_def Let_def)
qed

lemma ceil_dbl_int [simp]: "ceil_dbl (Fin (of_int n)) = Fin (of_int n)"
  by (simp add: zero_def)

lemma to_int_int: "to_int (Fin (of_int n)) = (if int_ok n then Some n else None)"
  by (simp add: to_int_def Doubles.truncate_def)

subsection \<open>Properties\<close>

text \<open>Arithmetic rounds to nearest: a finite result of \<open>rnd\<close> is within half a unit in the last place
  of the exact value, and an integer below \<open>2 ^ 53\<close>, such as a time or a media position in whole seconds,
  is kept exactly.\<close>

theorem rnd_correct:
  "(finite_dbl (rnd r) \<longrightarrow> \<bar>val (rnd r) - r\<bar> \<le> ulp \<bar>r\<bar> / 2) \<and>
   (\<bar>n\<bar> < 2 ^ 53 \<longrightarrow> of_integer n = Fin (of_int n))"
  using rnd_nearest of_integer_small by blast

theorem rnd_correct_witness: "of_integer 1700000000 = Fin 1700000000"
  using rnd_correct [of 0 1700000000] by simp



end
