(* ===== verification/Ssl.thy ===== *)
theory Ssl
  imports Prelude
begin

text \<open>
  \<open>ssl.cc\<close>: the OpenSSL functions, looked up at run time in a shared library.

  The dynamic loader and the file system are parameters (\<open>loader\<close>): which files there are, what
  \<open>dlopen\<close> and \<open>dlsym\<close> give. \<open>ssl_table\<close> holds the eleven static pointers \<open>EXT_*\<close>, \<open>None\<close> for
  \<open>nullptr\<close>; what the code does to libraries, and what it reports on stderr, is recorded in order as a
  list of \<open>load_event\<close>s.
\<close>

type_synonym handle = nat
type_synonym addr = nat

record loader =
  file_exists :: "string \<Rightarrow> bool"
  dlopen :: "string \<Rightarrow> handle option"
  dlsym :: "handle \<Rightarrow> string \<Rightarrow> addr option"
  manual_path :: "string option"

datatype load_event =
  Opened string handle | Closed handle | Called addr
  | Cannot_resolve string | Cannot_open string | Cannot_load string | No_library

record ssl_table =
  EXT_SSL_new :: "addr option"
  EXT_SSL_CTX_new :: "addr option"
  EXT_TLS_client_method :: "addr option"
  EXT_SSL_connect :: "addr option"
  EXT_SSL_get_error :: "addr option"
  EXT_SSL_read :: "addr option"
  EXT_SSL_set_fd :: "addr option"
  EXT_SSL_write :: "addr option"
  EXT_SSL_CTX_free :: "addr option"
  EXT_SSL_CTX_set_verify :: "addr option"
  EXT_SSL_free :: "addr option"

type_synonym ssl_state = "ssl_table \<times> load_event list"

definition no_symbols :: ssl_table where
  "no_symbols =
     \<lparr>EXT_SSL_new = None, EXT_SSL_CTX_new = None, EXT_TLS_client_method = None,
      EXT_SSL_connect = None, EXT_SSL_get_error = None, EXT_SSL_read = None, EXT_SSL_set_fd = None,
      EXT_SSL_write = None, EXT_SSL_CTX_free = None, EXT_SSL_CTX_set_verify = None,
      EXT_SSL_free = None\<rparr>"

subsection \<open>Loading one library\<close>

text \<open>The macro \<open>RESOLVE_SYMBOL\<close>: \<open>assign\<close> stores the symbol in its pointer.\<close>

definition resolve_symbol ::
  "loader \<Rightarrow> handle \<Rightarrow> string \<Rightarrow> (addr option \<Rightarrow> ssl_table \<Rightarrow> ssl_table) \<Rightarrow> ssl_state \<Rightarrow> ssl_state"
where
  "resolve_symbol L libHandle name assign s =
     (case s of (ext, log) \<Rightarrow>
        let p = dlsym L libHandle name
        in (assign p ext, if p = None then log @ [Cannot_resolve name] else log))"

definition all_resolved :: "ssl_table \<Rightarrow> bool" where
  "all_resolved ext \<longleftrightarrow>
     EXT_SSL_CTX_free ext \<noteq> None \<and> EXT_SSL_CTX_new ext \<noteq> None \<and> EXT_SSL_CTX_set_verify ext \<noteq> None \<and>
     EXT_SSL_connect ext \<noteq> None \<and> EXT_SSL_free ext \<noteq> None \<and> EXT_SSL_get_error ext \<noteq> None \<and>
     EXT_SSL_new ext \<noteq> None \<and> EXT_SSL_read ext \<noteq> None \<and> EXT_SSL_write ext \<noteq> None \<and>
     EXT_SSL_set_fd ext \<noteq> None \<and> EXT_TLS_client_method ext \<noteq> None"

definition resolveSymbols :: "loader \<Rightarrow> handle \<Rightarrow> ssl_state \<Rightarrow> bool \<times> ssl_state" where
  "resolveSymbols L libHandle s =
     (let s = resolve_symbol L libHandle ''SSL_new'' (\<lambda>p. EXT_SSL_new_update (\<lambda>_. p)) s;
          s = resolve_symbol L libHandle ''SSL_CTX_new'' (\<lambda>p. EXT_SSL_CTX_new_update (\<lambda>_. p)) s;
          s = resolve_symbol L libHandle ''SSL_connect'' (\<lambda>p. EXT_SSL_connect_update (\<lambda>_. p)) s;
          s = resolve_symbol L libHandle ''SSL_get_error'' (\<lambda>p. EXT_SSL_get_error_update (\<lambda>_. p)) s;
          s = resolve_symbol L libHandle ''SSL_read'' (\<lambda>p. EXT_SSL_read_update (\<lambda>_. p)) s;
          s = resolve_symbol L libHandle ''SSL_set_fd'' (\<lambda>p. EXT_SSL_set_fd_update (\<lambda>_. p)) s;
          s = resolve_symbol L libHandle ''SSL_write'' (\<lambda>p. EXT_SSL_write_update (\<lambda>_. p)) s;
          s = resolve_symbol L libHandle ''SSL_CTX_free'' (\<lambda>p. EXT_SSL_CTX_free_update (\<lambda>_. p)) s;
          s = resolve_symbol L libHandle ''SSL_CTX_set_verify''
                (\<lambda>p. EXT_SSL_CTX_set_verify_update (\<lambda>_. p)) s;
          s = resolve_symbol L libHandle ''SSL_free'' (\<lambda>p. EXT_SSL_free_update (\<lambda>_. p)) s;
          (ext, log) = s;
          ext = ext\<lparr>EXT_TLS_client_method := dlsym L libHandle ''TLS_client_method''\<rparr>;
          ext = (if EXT_TLS_client_method ext = None
                 then ext\<lparr>EXT_TLS_client_method := dlsym L libHandle ''SSLv23_client_method''\<rparr>
                 else ext)
      in (all_resolved ext, (ext, log)))"

definition libraryInit :: "loader \<Rightarrow> handle \<Rightarrow> ssl_state \<Rightarrow> bool \<times> ssl_state" where
  "libraryInit L libHandle s =
     (case s of (ext, log) \<Rightarrow>
        (case dlsym L libHandle ''SSL_library_init'' of
          Some f \<Rightarrow> (True, (ext, log @ [Called f]))
        | None \<Rightarrow>
            (case dlsym L libHandle ''OPENSSL_init_ssl'' of
               Some f \<Rightarrow> (True, (ext, log @ [Called f]))
             | None \<Rightarrow> (False, s))))"

definition attemptOpen :: "loader \<Rightarrow> string \<Rightarrow> ssl_state \<Rightarrow> bool \<times> ssl_state" where
  "attemptOpen L file s =
     (if file = [] then (False, s)
      else case s of (ext, log) \<Rightarrow>
        (case dlopen L file of
           None \<Rightarrow> (False, (ext, log @ [Cannot_open file]))
         | Some libHandle \<Rightarrow>
             let (resolved, s) = resolveSymbols L libHandle (ext, log @ [Opened file libHandle]);
                 (success, s) = (if resolved then libraryInit L libHandle s else (False, s));
                 (ext, log) = s;
                 (ext, log) = (if \<not> success then (no_symbols, log @ [Cannot_load file]) else (ext, log))
             in (success, (ext, log @ [Closed libHandle]))))"

subsection \<open>Finding a library\<close>

text \<open>The second string is two literals of the source, with no comma between them.\<close>

definition dirs :: "string list" where
  "dirs =
     [''/usr/lib/'',
      ''./'' @ ''/usr/local/lib/'',
      ''/usr/local/openssl/lib/'',
      ''/usr/local/ssl/lib/'',
      ''/opt/openssl/lib/'',
      ''/lib/'']"

definition libs :: "string list" where
  "libs = [''libssl.so'', ''libgnutls-openssl.so'']"

fun try_filenames :: "loader \<Rightarrow> string \<Rightarrow> string list \<Rightarrow> ssl_state \<Rightarrow> bool \<times> ssl_state" where
  "try_filenames L dir [] s = (False, s)"
| "try_filenames L dir (filename # fs) s =
     (if \<not> file_exists L (dir @ filename) then try_filenames L dir fs s
      else case attemptOpen L (dir @ filename) s of
        (True, s) \<Rightarrow> (True, s)
      | (False, s) \<Rightarrow> try_filenames L dir fs s)"

fun try_dirs :: "loader \<Rightarrow> string list \<Rightarrow> ssl_state \<Rightarrow> bool \<times> ssl_state" where
  "try_dirs L [] s = (False, s)"
| "try_dirs L (dir # ds) s =
     (case try_filenames L dir libs s of
        (True, s) \<Rightarrow> (True, s)
      | (False, s) \<Rightarrow> try_dirs L ds s)"

definition initialize :: "loader \<Rightarrow> ssl_state \<Rightarrow> bool \<times> ssl_state" where
  "initialize L s =
     (case (case manual_path L of None \<Rightarrow> (False, s) | Some p \<Rightarrow> attemptOpen L p s) of
        (True, s) \<Rightarrow> (True, s)
      | (False, s) \<Rightarrow>
          (case try_dirs L dirs s of
             (True, s) \<Rightarrow> (True, s)
           | (False, (ext, log)) \<Rightarrow> (False, (ext, log @ [No_library]))))"

subsection \<open>What one library gives\<close>

definition table_of :: "loader \<Rightarrow> handle \<Rightarrow> ssl_table" where
  "table_of L h =
     \<lparr>EXT_SSL_new = dlsym L h ''SSL_new'', EXT_SSL_CTX_new = dlsym L h ''SSL_CTX_new'',
      EXT_TLS_client_method =
        (if dlsym L h ''TLS_client_method'' = None then dlsym L h ''SSLv23_client_method''
         else dlsym L h ''TLS_client_method''),
      EXT_SSL_connect = dlsym L h ''SSL_connect'', EXT_SSL_get_error = dlsym L h ''SSL_get_error'',
      EXT_SSL_read = dlsym L h ''SSL_read'', EXT_SSL_set_fd = dlsym L h ''SSL_set_fd'',
      EXT_SSL_write = dlsym L h ''SSL_write'', EXT_SSL_CTX_free = dlsym L h ''SSL_CTX_free'',
      EXT_SSL_CTX_set_verify = dlsym L h ''SSL_CTX_set_verify'',
      EXT_SSL_free = dlsym L h ''SSL_free''\<rparr>"

definition init_function :: "loader \<Rightarrow> handle \<Rightarrow> addr option" where
  "init_function L h =
     (case dlsym L h ''SSL_library_init'' of Some f \<Rightarrow> Some f | None \<Rightarrow> dlsym L h ''OPENSSL_init_ssl'')"

definition loadable :: "loader \<Rightarrow> string \<Rightarrow> bool" where
  "loadable L file \<longleftrightarrow> file \<noteq> [] \<and>
     (case dlopen L file of
        None \<Rightarrow> False
      | Some h \<Rightarrow> all_resolved (table_of L h) \<and> init_function L h \<noteq> None)"

definition candidates :: "loader \<Rightarrow> string list" where
  "candidates L =
     (case manual_path L of None \<Rightarrow> [] | Some p \<Rightarrow> [p]) @
     filter (file_exists L) (concat (map (\<lambda>dir. map (\<lambda>filename. dir @ filename) libs) dirs))"

definition opens :: "handle \<Rightarrow> load_event list \<Rightarrow> nat" where
  "opens h log = length (filter (\<lambda>e. \<exists>f. e = Opened f h) log)"

definition closes :: "handle \<Rightarrow> load_event list \<Rightarrow> nat" where
  "closes h log = count_list log (Closed h)"

lemma opens_simps [simp]:
  "opens h [] = 0" "opens h (xs @ ys) = opens h xs + opens h ys"
  "opens h (e # xs) = (case e of Opened f h' \<Rightarrow> if h' = h then 1 else 0 | _ \<Rightarrow> 0) + opens h xs"
  by (auto simp: opens_def split: load_event.split)

lemma closes_simps [simp]:
  "closes h [] = 0" "closes h (xs @ ys) = closes h xs + closes h ys"
  "closes h (e # xs) = (if e = Closed h then 1 else 0) + closes h xs"
  by (auto simp: closes_def)

definition unresolved :: "loader \<Rightarrow> handle \<Rightarrow> string list \<Rightarrow> load_event list" where
  "unresolved L h names = map Cannot_resolve (filter (\<lambda>name. dlsym L h name = None) names)"

lemma resolve_symbol_eq:
  "resolve_symbol L h name assign (ext, log) = (assign (dlsym L h name) ext, log @ unresolved L h [name])"
  by (simp add: resolve_symbol_def unresolved_def Let_def)

lemma unresolved_append: "unresolved L h xs @ unresolved L h ys = unresolved L h (xs @ ys)"
  by (simp add: unresolved_def)

lemma unresolved_quiet [simp]: "opens h' (unresolved L h names) = 0" "closes h' (unresolved L h names) = 0"
  by (induction names) (simp_all add: unresolved_def)

lemma resolveSymbols_eq:
  "resolveSymbols L h (ext, log) =
     (all_resolved (table_of L h),
      (table_of L h,
       log @ unresolved L h
         [''SSL_new'', ''SSL_CTX_new'', ''SSL_connect'', ''SSL_get_error'', ''SSL_read'', ''SSL_set_fd'',
          ''SSL_write'', ''SSL_CTX_free'', ''SSL_CTX_set_verify'', ''SSL_free'']))"
  by (cases ext)
    (simp add: resolveSymbols_def resolve_symbol_eq Let_def table_of_def unresolved_append)

lemma libraryInit_eq:
  "libraryInit L h (ext, log) =
     (case init_function L h of
        None \<Rightarrow> (False, (ext, log)) | Some f \<Rightarrow> (True, (ext, log @ [Called f])))"
  by (simp add: libraryInit_def init_function_def split: option.split)

definition balanced :: "load_event list \<Rightarrow> bool" where
  "balanced log \<longleftrightarrow> (\<forall>h. opens h log = closes h log)"

lemma balanced_simps [simp]:
  "balanced []" "balanced xs \<Longrightarrow> balanced ys \<Longrightarrow> balanced (xs @ ys)"
  "balanced [Cannot_open f]" "balanced [No_library]"
  by (simp_all add: balanced_def)

lemma attemptOpen_eq:
  "\<exists>extra. attemptOpen L file (ext, log) =
     (loadable L file,
      (if loadable L file then table_of L (the (dlopen L file))
       else if file = [] \<or> dlopen L file = None then ext else no_symbols,
       log @ extra)) \<and> balanced extra \<and>
     (loadable L file \<longrightarrow> (\<exists>h f more. dlopen L file = Some h \<and> init_function L h = Some f \<and>
        extra = Opened file h # more @ [Called f, Closed h]))"
proof (cases "file = [] \<or> dlopen L file = None")
  case True
  then show ?thesis by (auto simp: attemptOpen_def loadable_def intro: exI [of _ "[]"])
next
  case False
  then obtain h where h: "file \<noteq> []" "dlopen L file = Some h" by auto
  show ?thesis
    by (cases "init_function L h"; cases "all_resolved (table_of L h)")
      (simp_all add: attemptOpen_def h resolveSymbols_eq libraryInit_eq Let_def loadable_def balanced_def)
qed

subsection \<open>The search is a search for the first loadable candidate\<close>

fun attempt_first :: "loader \<Rightarrow> string list \<Rightarrow> ssl_state \<Rightarrow> bool \<times> ssl_state" where
  "attempt_first L [] s = (False, s)"
| "attempt_first L (file # fs) s =
     (case attemptOpen L file s of (True, s) \<Rightarrow> (True, s) | (False, s) \<Rightarrow> attempt_first L fs s)"

lemma attempt_first_append:
  "attempt_first L (xs @ ys) s =
     (case attempt_first L xs s of (True, s) \<Rightarrow> (True, s) | (False, s) \<Rightarrow> attempt_first L ys s)"
  by (induction xs arbitrary: s) (auto split: prod.split bool.split)

lemma try_filenames_first:
  "try_filenames L dir fs s = attempt_first L (filter (file_exists L) (map (\<lambda>f. dir @ f) fs)) s"
  by (induction fs arbitrary: s) (auto split: prod.split bool.split)

lemma try_dirs_first:
  "try_dirs L ds s =
     attempt_first L (filter (file_exists L) (concat (map (\<lambda>dir. map (\<lambda>f. dir @ f) libs) ds))) s"
  by (induction ds arbitrary: s)
    (auto simp: try_filenames_first attempt_first_append split: prod.split bool.split)

lemma initialize_first:
  "initialize L s =
     (case attempt_first L (candidates L) s of
        (True, s) \<Rightarrow> (True, s) | (False, (ext, log)) \<Rightarrow> (False, (ext, log @ [No_library])))"
proof (cases "manual_path L")
  case None
  then show ?thesis
    by (simp add: initialize_def candidates_def try_dirs_first split: prod.split bool.split)
next
  case (Some p)
  obtain b s' where "attemptOpen L p s = (b, s')" by (cases "attemptOpen L p s")
  with Some show ?thesis
    by (cases b) (simp_all add: initialize_def candidates_def try_dirs_first)
qed

lemma attempt_first_eq:
  "\<exists>extra. attempt_first L fs (no_symbols, log) =
     (\<exists>p \<in> set fs. loadable L p,
      (case find (loadable L) fs of
         None \<Rightarrow> no_symbols | Some p \<Rightarrow> table_of L (the (dlopen L p)), log @ extra)) \<and>
     balanced extra \<and>
     (\<forall>p. find (loadable L) fs = Some p \<longrightarrow>
        (\<exists>h f before more. dlopen L p = Some h \<and> init_function L h = Some f \<and>
           extra = before @ Opened p h # more @ [Called f, Closed h]))"
proof (induction fs arbitrary: log)
  case Nil
  then show ?case by (auto intro: exI [of _ "[]"])
next
  case (Cons p fs)
  obtain extra where 1: "attemptOpen L p (no_symbols, log) =
      (loadable L p, (if loadable L p then table_of L (the (dlopen L p)) else no_symbols, log @ extra))"
    and 2: "balanced extra"
    and 3: "loadable L p \<Longrightarrow> \<exists>h f more. dlopen L p = Some h \<and> init_function L h = Some f \<and>
        extra = Opened p h # more @ [Called f, Closed h]"
    using attemptOpen_eq [of L p no_symbols log] by (auto split: if_splits)
  show ?case
  proof (cases "loadable L p")
    case True
    then obtain h f more where hf: "dlopen L p = Some h" "init_function L h = Some f"
      "extra = Opened p h # more @ [Called f, Closed h]"
      using 3 by blast
    then have "extra = [] @ Opened p h # more @ [Called f, Closed h]" by simp
    with True 1 2 hf show ?thesis by (intro exI [of _ extra]) (auto simp del: append_Nil)
  next
    case False
    obtain extra' where IH: "attempt_first L fs (no_symbols, log @ extra) =
       (\<exists>p \<in> set fs. loadable L p,
        (case find (loadable L) fs of
           None \<Rightarrow> no_symbols | Some p \<Rightarrow> table_of L (the (dlopen L p)), (log @ extra) @ extra'))"
      "balanced extra'"
      "\<forall>p. find (loadable L) fs = Some p \<longrightarrow>
        (\<exists>h f before more. dlopen L p = Some h \<and> init_function L h = Some f \<and>
           extra' = before @ Opened p h # more @ [Called f, Closed h])"
      using Cons.IH [of "log @ extra"] by blast
    have "\<forall>q. find (loadable L) fs = Some q \<longrightarrow>
        (\<exists>h f before more. dlopen L q = Some h \<and> init_function L h = Some f \<and>
           extra @ extra' = before @ Opened q h # more @ [Called f, Closed h])"
      using IH(3) by (metis append.assoc)
    with False 1 2 IH(1,2) show ?thesis
      by (intro exI [of _ "extra @ extra'"]) simp
  qed
qed

lemma loadable_resolved: "loadable L p \<Longrightarrow> all_resolved (table_of L (the (dlopen L p)))"
  by (simp add: loadable_def split: option.splits)

subsection \<open>Properties\<close>

text \<open>C23. Which library is used. Started with no symbols, \<open>initialize\<close> returns \<open>true\<close> exactly when the
  manual path or one of the existing library files can be loaded; the pointers are then those of the
  first such file, all eleven of one library and none of them null; otherwise they are all null.\<close>

theorem initialize_uses_first_loadable:
  "\<exists>log'. initialize L (no_symbols, log) =
     (\<exists>p \<in> set (candidates L). loadable L p,
      (case find (loadable L) (candidates L) of
         None \<Rightarrow> no_symbols | Some p \<Rightarrow> table_of L (the (dlopen L p)), log')) \<and>
     (fst (initialize L (no_symbols, log)) \<longleftrightarrow> all_resolved (fst (snd (initialize L (no_symbols, log)))))"
proof -
  let ?r = "find (loadable L) (candidates L)"
  obtain extra where first: "attempt_first L (candidates L) (no_symbols, log) =
     (\<exists>p \<in> set (candidates L). loadable L p,
      (case ?r of None \<Rightarrow> no_symbols | Some p \<Rightarrow> table_of L (the (dlopen L p)), log @ extra))"
    using attempt_first_eq [of L "candidates L" log] by blast
  have found: "(\<exists>p \<in> set (candidates L). loadable L p) \<longleftrightarrow> ?r \<noteq> None"
    by (auto simp: find_None_iff simp del: not_None_eq)
  have "\<not> all_resolved no_symbols" by (simp add: all_resolved_def no_symbols_def)
  moreover have "all_resolved (table_of L (the (dlopen L p)))" if "?r = Some p" for p
    using that by (auto simp: find_Some_iff intro: loadable_resolved)
  ultimately show ?thesis
    using first unfolding found by (cases ?r) (simp_all add: initialize_first)
qed

text \<open>C40. The library the pointers lead into is closed again. Every \<open>dlopen\<close> of \<open>initialize\<close> is matched by
  a \<open>dlclose\<close>, the last one of a successful run included: it comes after the library's own init function
  was called, and leaves the program's pointers to what else keeps the library mapped.\<close>

theorem initialize_closes_what_it_uses:
  assumes "initialize L (no_symbols, []) = (True, (ext, log))"
  shows "balanced log \<and>
    (\<exists>p h f before more. find (loadable L) (candidates L) = Some p \<and> dlopen L p = Some h \<and>
       ext = table_of L h \<and> log = before @ Opened p h # more @ [Called f, Closed h])"
proof -
  obtain extra where first: "attempt_first L (candidates L) (no_symbols, []) =
     (\<exists>p \<in> set (candidates L). loadable L p,
      (case find (loadable L) (candidates L) of
         None \<Rightarrow> no_symbols | Some p \<Rightarrow> table_of L (the (dlopen L p)), [] @ extra))"
    and bal: "balanced extra"
    and ev: "\<forall>p. find (loadable L) (candidates L) = Some p \<longrightarrow>
        (\<exists>h f before more. dlopen L p = Some h \<and> init_function L h = Some f \<and>
           extra = before @ Opened p h # more @ [Called f, Closed h])"
    using attempt_first_eq [of L "candidates L" "[]"] by blast
  have "\<exists>p \<in> set (candidates L). loadable L p"
    using assms first by (auto simp: initialize_first split: if_splits bool.splits)
  then obtain p where p: "find (loadable L) (candidates L) = Some p"
    by (metis find_None_iff not_None_eq)
  from assms first p have "ext = table_of L (the (dlopen L p))" and "log = extra"
    by (auto simp: initialize_first split: bool.splits)
  with bal ev p show ?thesis by fastforce
qed

definition one_library :: "string \<Rightarrow> loader" where
  "one_library path =
     \<lparr>file_exists = (\<lambda>p. p = path), dlopen = (\<lambda>p. if p = path then Some 7 else None),
      dlsym = (\<lambda>h name. Some (length name)), manual_path = None\<rparr>"

theorem initialize_closes_what_it_uses_witness:
  "\<exists>ext log. initialize (one_library ''/lib/libssl.so'') (no_symbols, []) = (True, (ext, log)) \<and>
     last log = Closed 7"
proof -
  let ?L = "one_library ''/lib/libssl.so''"
  obtain log where init: "initialize ?L (no_symbols, []) = (True, (table_of ?L 7, log))"
    by (simp add: initialize_first candidates_def one_library_def dirs_def libs_def attemptOpen_def
        resolveSymbols_def resolve_symbol_def all_resolved_def libraryInit_def table_of_def)
  have h: "dlopen ?L p = Some h \<Longrightarrow> h = 7" for p h
    by (simp add: one_library_def split: if_splits)
  from initialize_closes_what_it_uses [OF init] have "last log = Closed 7"
    using h by force
  with init show ?thesis by blast
qed

text \<open>The comma missing after \<open>"./"\<close>: without a manual path, a library in \<open>/usr/local/lib/\<close> or in
  the current directory is never found; the one place looked up instead is below \<open>.//usr/local/lib/\<close>.\<close>

theorem initialize_misses_usr_local_lib:
  assumes "manual_path L = None"
    and "\<And>p. file_exists L p \<Longrightarrow> \<exists>f. p = ''/usr/local/lib/'' @ f \<or> p = ''./lib'' @ f"
  shows "fst (initialize L s) = False"
proof -
  have "\<not> file_exists L p" if "p \<in> set (concat (map (\<lambda>dir. map (\<lambda>f. dir @ f) libs) dirs))" for p
    using assms(2) [of p] that by (auto simp: dirs_def libs_def)
  then have "filter (file_exists L) (concat (map (\<lambda>dir. map (\<lambda>f. dir @ f) libs) dirs)) = []"
    unfolding filter_empty_conv by blast
  then show ?thesis
    using assms(1) by (simp add: initialize_first candidates_def split: prod.split)
qed

theorem initialize_misses_usr_local_lib_witness:
  "fst (initialize (one_library ''/usr/local/lib/libssl.so'') (no_symbols, [])) = False"
  by (rule initialize_misses_usr_local_lib) (simp_all add: one_library_def)

end
