(* ===== verification/World.thy ===== *)
theory World
  imports Doubles Ssl Cast_Message "HOL-Library.Char_ord" "HOL-Library.List_Lexorder"
begin

text \<open>
  The state of the program and what it shares with its surroundings.

  \<open>world\<close> holds every variable with static storage that the program writes: those of \<open>globals.h\<close>, the two
  strings and the request counter of \<open>chromecast.h\<close>, the pointers of \<open>ssl.cc\<close>, the spinner of
  \<open>mdns.h\<close>, and \<open>errno\<close>. \<open>trace\<close> is what the program did that can be seen from outside, in order.

  \<open>env\<close> is everything outside: the clock, the kernel, the SSL library. It answers the \<open>n\<close>-th call the
  program makes (\<open>tick\<close>) as it likes; the call may change \<open>errno\<close>, and a signal may be delivered during
  it, which runs \<open>signalHandler\<close>. What holds for every \<open>env\<close> holds whatever the outside does.

  A routine takes the \<open>env\<close> and the \<open>world\<close> and returns \<open>Some\<close> of its result and the \<open>world\<close> after it,
  or \<open>None\<close> when it meets undefined behaviour, a failed \<open>assert\<close> or an exception nobody catches.
  \<open>size_t\<close> is wide enough for every buffer; \<open>time_t\<close> values are unbounded integers.
\<close>

record segment =
  seg_begin :: dbl
  seg_end :: dbl

record sockaddr_in =
  sin_port :: nat
  sin_addr :: "byte \<times> byte \<times> byte \<times> byte"

datatype event =
  Out string
| Err string
| Perror string
| Sent "byte list" int
| Connected_to sockaddr_in
| Datagram "byte list"
| Closed_socket int
| Slept int

record world =
  s_running :: bool
  s_verbose :: bool
  s_adblock :: bool
  s_youtube :: bool
  currentSegments :: "segment list"
  nextSegmentStart :: dbl
  currentVideo :: string
  s_currentPosition :: dbl
  currentDuration :: dbl
  s_lastPositionFetched :: dbl
  currentlyPlaying :: bool
  s_lastSeek :: int
  s_lastPing :: int
  s_currentStatus :: string
  s_categories :: "string list"
  dest :: string
  mediaSession :: string
  s_requestId :: int
  spinnerPos :: byte
  ssl :: ssl_table
  errno :: int
  tick :: nat
  trace :: "event list"

text \<open>The answer of \<open>SSL_read\<close>: a negative code, or what was read. Of \<open>select\<close>: its result, and whether
  standard input and the socket are ready.\<close>

record env =
  env_target :: target
  env_signal :: "nat \<Rightarrow> int option"
  env_errno :: "nat \<Rightarrow> int \<Rightarrow> int"
  env_time :: "nat \<Rightarrow> int"
  env_int :: "nat \<Rightarrow> int"
  env_ptr :: "nat \<Rightarrow> addr option"
  env_ssl_read :: "nat \<Rightarrow> int \<Rightarrow> int + string"
  env_select :: "nat \<Rightarrow> int \<times> bool \<times> bool"
  env_host :: "nat \<Rightarrow> string \<Rightarrow> (byte \<times> byte \<times> byte \<times> byte) option"
  env_recvfrom :: "nat \<Rightarrow> nat \<Rightarrow> int + string \<times> int \<times> sockaddr_in"

subsection \<open>Output\<close>

definition emit :: "event \<Rightarrow> world \<Rightarrow> world" where
  "emit e w = w\<lparr>trace := trace w @ [e]\<rparr>"

abbreviation out :: "string \<Rightarrow> world \<Rightarrow> world" where
  "out s \<equiv> emit (Out s)"

abbreviation err :: "string \<Rightarrow> world \<Rightarrow> world" where
  "err s \<equiv> emit (Err s)"

definition puts :: "string \<Rightarrow> world \<Rightarrow> world" where
  "puts s = out (s @ [CHR 0x0A])"

definition cerr :: "string \<Rightarrow> world \<Rightarrow> world" where
  "cerr s = err (s @ [CHR 0x0A])"

abbreviation when_verbose :: "(world \<Rightarrow> world) \<Rightarrow> world \<Rightarrow> world" where
  "when_verbose f w \<equiv> (if s_verbose w then f w else w)"

text \<open>\<open>\033[2K\r\<close>: erase the line and go back to its start.\<close>

definition erase_line :: string where
  "erase_line = CHR 0x1B # ''[2K'' @ [CHR 0x0D]"

text \<open>The keys that stop the program, and the message for all others: \<open>%x\<close> of an \<open>int\<close>.\<close>

definition is_quit_key :: "int \<Rightarrow> bool" where
  "is_quit_key key \<longleftrightarrow> key = of_char CHR ''q'' \<or> key = of_char CHR 0x1B"

definition hex_digit :: "nat \<Rightarrow> char" where
  "hex_digit d = char_of (if d < 10 then 48 + d else 87 + d)"

fun hex :: "nat \<Rightarrow> string" where
  "hex n = (if n < 16 then [hex_digit n] else hex (n div 16) @ [hex_digit (n mod 16)])"

declare hex.simps [simp del]

definition unhandled_key :: "int \<Rightarrow> world \<Rightarrow> world" where
  "unhandled_key key w = when_verbose (puts (''Unhandled key 0x'' @ hex (nat (key mod 2 ^ 32)))) w"

subsection \<open>Calls to the outside\<close>

text \<open>The values of \<open>errno\<close> the program names.\<close>

definition EINTR :: int where "EINTR = 4"
definition EBADMSG :: int where "EBADMSG = 74"
definition ECONNRESET :: int where "ECONNRESET = 104"
definition ETIMEDOUT :: int where "ETIMEDOUT = 110"
definition ENOENT :: int where "ENOENT = 2"
definition EINVAL :: int where "EINVAL = 22"
definition ERANGE :: int where "ERANGE = 34"

text \<open>\<open>signalHandler\<close> of \<open>main.cc\<close>; that the signal's action is reset is left to the kernel.\<close>

definition signalHandler :: "int \<Rightarrow> world \<Rightarrow> world" where
  "signalHandler sig w = puts ''Bye'' (w\<lparr>s_running := False\<rparr>)"

definition sys :: "env \<Rightarrow> (nat \<Rightarrow> 'a) \<Rightarrow> world \<Rightarrow> 'a \<times> world" where
  "sys E answer w =
     (answer (tick w),
      (case env_signal E (tick w) of None \<Rightarrow> id | Some sig \<Rightarrow> signalHandler sig)
        (w\<lparr>tick := tick w + 1, errno := env_errno E (tick w) (errno w)\<rparr>))"

definition time :: "env \<Rightarrow> world \<Rightarrow> int \<times> world" where
  "time E w = sys E (env_time E) w"

subsection \<open>The SSL library\<close>

text \<open>The wrappers of \<open>ssl.cc\<close>: a call through a null pointer is undefined. Contexts and handles are
  left to the library; a pointer it returns is \<open>None\<close> when null.\<close>

definition through :: "addr option \<Rightarrow> env \<Rightarrow> (nat \<Rightarrow> 'a) \<Rightarrow> world \<Rightarrow> ('a \<times> world) option" where
  "through f E answer w = (case f of None \<Rightarrow> None | Some _ \<Rightarrow> Some (sys E answer w))"

definition SSL_CTX_free :: "env \<Rightarrow> world \<Rightarrow> (unit \<times> world) option" where
  "SSL_CTX_free E w = through (EXT_SSL_CTX_free (ssl w)) E (\<lambda>_. ()) w"

definition SSL_CTX_new :: "env \<Rightarrow> world \<Rightarrow> (addr option \<times> world) option" where
  "SSL_CTX_new E w = through (EXT_SSL_CTX_new (ssl w)) E (env_ptr E) w"

definition SSL_CTX_set_verify :: "env \<Rightarrow> world \<Rightarrow> (unit \<times> world) option" where
  "SSL_CTX_set_verify E w = through (EXT_SSL_CTX_set_verify (ssl w)) E (\<lambda>_. ()) w"

definition SSL_connect :: "env \<Rightarrow> world \<Rightarrow> (int \<times> world) option" where
  "SSL_connect E w = through (EXT_SSL_connect (ssl w)) E (env_int E) w"

definition SSL_free :: "env \<Rightarrow> world \<Rightarrow> (unit \<times> world) option" where
  "SSL_free E w = through (EXT_SSL_free (ssl w)) E (\<lambda>_. ()) w"

definition SSL_get_error :: "env \<Rightarrow> int \<Rightarrow> world \<Rightarrow> (int \<times> world) option" where
  "SSL_get_error E rc w = through (EXT_SSL_get_error (ssl w)) E (env_int E) w"

definition SSL_new :: "env \<Rightarrow> world \<Rightarrow> (addr option \<times> world) option" where
  "SSL_new E w = through (EXT_SSL_new (ssl w)) E (env_ptr E) w"

definition SSL_read :: "env \<Rightarrow> int \<Rightarrow> world \<Rightarrow> ((int + string) \<times> world) option" where
  "SSL_read E num w = through (EXT_SSL_read (ssl w)) E (\<lambda>t. env_ssl_read E t num) w"

definition SSL_set_fd :: "env \<Rightarrow> world \<Rightarrow> (int \<times> world) option" where
  "SSL_set_fd E w = through (EXT_SSL_set_fd (ssl w)) E (env_int E) w"

definition SSL_write :: "env \<Rightarrow> byte list \<Rightarrow> world \<Rightarrow> (int \<times> world) option" where
  "SSL_write E data w =
     map_option (\<lambda>(n, w). (n, emit (Sent data n) w)) (through (EXT_SSL_write (ssl w)) E (env_int E) w)"

definition TLS_client_method :: "env \<Rightarrow> world \<Rightarrow> (addr option \<times> world) option" where
  "TLS_client_method E w = through (EXT_TLS_client_method (ssl w)) E (env_ptr E) w"

subsection \<open>What a call leaves alone\<close>

text \<open>\<open>core\<close> is the state that neither output nor a call to the outside touches; \<open>sends\<close> is what was
  handed to \<open>SSL_write\<close> so far.\<close>

definition core :: "world \<Rightarrow> world" where
  "core w = w\<lparr>s_running := True, errno := 0, tick := 0, trace := []\<rparr>"

definition sent_of :: "event \<Rightarrow> byte list list" where
  "sent_of e = (case e of Sent data n \<Rightarrow> [data] | _ \<Rightarrow> [])"

definition sends :: "world \<Rightarrow> byte list list" where
  "sends w = concat (map sent_of (trace w))"

lemma sent_of_simps [simp]:
  "sent_of (Out s) = []" "sent_of (Err s) = []" "sent_of (Perror s) = []" "sent_of (Sent data n) = [data]"
  "sent_of (Connected_to a) = []" "sent_of (Datagram data) = []" "sent_of (Closed_socket i) = []"
  "sent_of (Slept i) = []"
  by (simp_all add: sent_of_def)

lemma core_emit [simp]: "core (emit e w) = core w"
  by (simp add: core_def emit_def)

lemma core_puts [simp]: "core (puts s w) = core w" "core (cerr s w) = core w"
  by (simp_all add: puts_def cerr_def)

lemma core_signalHandler [simp]: "core (signalHandler sig w) = core w"
  by (simp add: signalHandler_def) (simp add: core_def)

lemma core_sys [simp]: "core (snd (sys E a w)) = core w"
  by (simp add: sys_def split: option.split) (simp add: core_def)

lemma core_field [simp]:
  "core (w\<lparr>s_running := b\<rparr>) = core w" "core (w\<lparr>errno := i\<rparr>) = core w"
  "core (w\<lparr>tick := n\<rparr>) = core w" "core (w\<lparr>trace := tr\<rparr>) = core w"
  by (simp_all add: core_def)

lemma core_eqD:
  assumes "core w' = core w"
  shows "s_verbose w' = s_verbose w" "s_adblock w' = s_adblock w" "s_youtube w' = s_youtube w"
    "currentSegments w' = currentSegments w" "nextSegmentStart w' = nextSegmentStart w"
    "currentVideo w' = currentVideo w" "s_currentPosition w' = s_currentPosition w"
    "currentDuration w' = currentDuration w" "s_lastPositionFetched w' = s_lastPositionFetched w"
    "currentlyPlaying w' = currentlyPlaying w" "s_lastSeek w' = s_lastSeek w"
    "s_lastPing w' = s_lastPing w" "s_currentStatus w' = s_currentStatus w"
    "s_categories w' = s_categories w" "dest w' = dest w" "mediaSession w' = mediaSession w"
    "s_requestId w' = s_requestId w" "spinnerPos w' = spinnerPos w" "ssl w' = ssl w"
  using assms unfolding core_def by (cases w; cases w'; simp)+

lemma sends_emit [simp]:
  "sends (emit e w) = sends w @ sent_of e"
  by (simp add: sends_def emit_def)

lemma sends_puts [simp]: "sends (puts s w) = sends w" "sends (cerr s w) = sends w"
  by (simp_all add: puts_def cerr_def)

lemma sends_field [simp]:
  "sends (w\<lparr>s_running := b\<rparr>) = sends w" "sends (w\<lparr>errno := i\<rparr>) = sends w" "sends (w\<lparr>tick := n\<rparr>) = sends w"
  by (simp_all add: sends_def)

lemma sends_sys [simp]: "sends (snd (sys E a w)) = sends w"
  by (simp add: sys_def signalHandler_def split: option.split)

lemma fst_sys [simp]: "fst (sys E a w) = a (tick w)"
  by (simp add: sys_def)

lemma through_eq_Some:
  "through f E a w = Some (x, w') \<longleftrightarrow> f \<noteq> None \<and> x = a (tick w) \<and> w' = snd (sys E a w)"
  by (cases f) (auto simp: through_def sys_def)

lemma snd_sys_core: "sys E a w = (x, w') \<Longrightarrow> core w' = core w \<and> sends w' = sends w"
  by (metis core_sys sends_sys snd_conv)

lemma core_sel:
    "s_verbose (core w) = s_verbose w" "s_adblock (core w) = s_adblock w" "s_youtube (core w) = s_youtube w"
    "currentSegments (core w) = currentSegments w" "nextSegmentStart (core w) = nextSegmentStart w" "currentVideo (core w) = currentVideo w"
    "s_currentPosition (core w) = s_currentPosition w" "currentDuration (core w) = currentDuration w" "s_lastPositionFetched (core w) = s_lastPositionFetched w"
    "currentlyPlaying (core w) = currentlyPlaying w" "s_lastSeek (core w) = s_lastSeek w" "s_lastPing (core w) = s_lastPing w"
    "s_currentStatus (core w) = s_currentStatus w" "s_categories (core w) = s_categories w" "dest (core w) = dest w"
    "mediaSession (core w) = mediaSession w" "spinnerPos (core w) = spinnerPos w" "ssl (core w) = ssl w"
    "s_requestId (core w) = s_requestId w"
  by (simp_all add: core_def)

lemmas emit_fields [simp] = core_eqD [OF core_emit]
lemmas puts_fields [simp] = core_eqD [OF core_puts(1)] core_eqD [OF core_puts(2)]
lemmas sys_fields [simp] = core_eqD [OF core_sys]

lemma core_keep_id [simp]: "(core w)\<lparr>s_requestId := s_requestId w\<rparr> = core w"
  by (simp add: core_def)

lemma sends_update_id [simp]: "sends (w\<lparr>s_requestId := i\<rparr>) = sends w"
  by (simp add: sends_def)

lemma core_update_id [simp]: "core (w\<lparr>s_requestId := i\<rparr>) = (core w)\<lparr>s_requestId := i\<rparr>"
  by (simp add: core_def)

lemma core_update_verbose [simp]:
  "core (w\<lparr>s_verbose := b\<rparr>) = (core w)\<lparr>s_verbose := b\<rparr>" "(core w)\<lparr>s_verbose := s_verbose w\<rparr> = core w"
  "sends (w\<lparr>s_verbose := b\<rparr>) = sends w"
  by (simp_all add: core_def sends_def)

lemma time_eq: "time E w = (now, v) \<Longrightarrow> now = env_time E (tick w) \<and> tick v = Suc (tick w) \<and> core v = core w \<and> sends v = sends w"
  using snd_sys_core [of E "env_time E" w now v]
  by (auto simp: time_def sys_def signalHandler_def puts_def emit_def split: option.splits)

subsection \<open>A small surrounding for the examples\<close>

definition linked :: ssl_table where
  "linked =
     \<lparr>EXT_SSL_new = Some 1, EXT_SSL_CTX_new = Some 2, EXT_TLS_client_method = Some 3,
      EXT_SSL_connect = Some 4, EXT_SSL_get_error = Some 5, EXT_SSL_read = Some 6, EXT_SSL_set_fd = Some 7,
      EXT_SSL_write = Some 8, EXT_SSL_CTX_free = Some 9, EXT_SSL_CTX_set_verify = Some 10,
      EXT_SSL_free = Some 11\<rparr>"

text \<open>An outside for the examples: a little-endian machine whose clock stands at \<open>now\<close>, whose calls all
  return \<open>n\<close>, and where nothing arrives.\<close>

definition still_env :: "int \<Rightarrow> int \<Rightarrow> env" where
  "still_env now n =
     \<lparr>env_target = tg0, env_signal = (\<lambda>_. None), env_errno = (\<lambda>_ e. e), env_time = (\<lambda>_. now),
      env_int = (\<lambda>_. n), env_ptr = (\<lambda>_. Some 1), env_ssl_read = (\<lambda>_ _. Inl (- 1)),
      env_select = (\<lambda>_. (0, False, False)), env_host = (\<lambda>_ _. None), env_recvfrom = (\<lambda>_ _. Inl (- 1))\<rparr>"

definition linked_world :: world where
  "linked_world =
     \<lparr>s_running = True, s_verbose = False, s_adblock = False, s_youtube = False,
      currentSegments = [], nextSegmentStart = Fin (- 1), currentVideo = [], s_currentPosition = Fin (- 1),
      currentDuration = Fin (- 1), s_lastPositionFetched = Fin (- 1), currentlyPlaying = False, s_lastSeek = 0,
      s_lastPing = 0, s_currentStatus = [], s_categories = [], dest = [], mediaSession = [],
      s_requestId = 1, spinnerPos = 0, ssl = linked, errno = 0, tick = 0, trace = []\<rparr>"

end
