(* ===== verification/Util.thy ===== *)
theory Util
  imports Prelude "HOL-Library.Sublist"
begin

text \<open>
  \<open>util.h\<close> without its number parsing: \<open>stringSplit\<close>, and \<open>regexExtract\<close> with the part of
  \<open>std::regex\<close> (ECMAScript syntax) the program uses.

  A pattern is compiled from the text the source gives it (\<open>re_compile\<close>; \<open>None\<close> for a text outside
  the part modelled, where the constructor of \<open>std::regex\<close> would throw or accept more): characters,
  \<open>\s\<close>, brackets with ranges and escapes, the greedy quantifiers \<open>* + ?\<close>, and groups that are not
  nested, quantified or alternated. \<open>re_match\<close> is the backtracking matcher: at each quantifier it
  first tries to take one more character. \<open>re_search\<close> takes the leftmost match. Texts are in the
  classic locale, where \<open>\s\<close> is the six ASCII spaces.
\<close>

subsection \<open>stringSplit\<close>

text \<open>\<open>std::string::find(c, start)\<close>; \<open>None\<close> is \<open>npos\<close>.\<close>

definition find_char :: "char \<Rightarrow> string \<Rightarrow> nat \<Rightarrow> nat option" where
  "find_char c s start =
     (let rest = drop start s; k = length (takeWhile (\<lambda>x. x \<noteq> c) rest)
      in if k < length rest then Some (start + k) else None)"

lemma find_char_bounds: "find_char c s start = Some e \<Longrightarrow> start \<le> e \<and> e < length s"
  by (auto simp: find_char_def Let_def split: if_splits)

function stringSplit_loop :: "string \<Rightarrow> char \<Rightarrow> nat \<Rightarrow> string list \<Rightarrow> nat \<times> string list" where
  "stringSplit_loop s delimiter start ret =
     (if start < length s
      then case find_char delimiter s start of
             None \<Rightarrow> (start, ret)
           | Some e \<Rightarrow> stringSplit_loop s delimiter (e + 1) (ret @ [take (e - start) (drop start s)])
      else (start, ret))"
  by pat_completeness auto
termination
  by (relation "measure (\<lambda>(s, delimiter, start, ret). length s - start)")
    (auto dest: find_char_bounds)

declare stringSplit_loop.simps [simp del]

definition stringSplit :: "string \<Rightarrow> char \<Rightarrow> string list" where
  "stringSplit s delimiter =
     (let (start, ret) = stringSplit_loop s delimiter 0 [] in ret @ [drop start s])"

subsection \<open>Regular expressions\<close>

datatype char_class = Lit char | Space | Bracket bool "(char \<times> char) list"

datatype quantifier = Once | Maybe | Star | Plus

datatype item = Atom char_class quantifier | Open | Close

definition is_space :: "char \<Rightarrow> bool" where
  "is_space c \<longleftrightarrow> c \<in> {CHR '' '', CHR 0x09, CHR 0x0A, CHR 0x0B, CHR 0x0C, CHR 0x0D}"

definition in_range :: "char \<times> char \<Rightarrow> char \<Rightarrow> bool" where
  "in_range r c \<longleftrightarrow> (of_char (fst r) :: nat) \<le> of_char c \<and> (of_char c :: nat) \<le> of_char (snd r)"

primrec class_has :: "char_class \<Rightarrow> char \<Rightarrow> bool" where
  "class_has (Lit a) c \<longleftrightarrow> c = a"
| "class_has Space c \<longleftrightarrow> is_space c"
| "class_has (Bracket negated rs) c \<longleftrightarrow> negated \<noteq> list_ex (\<lambda>r. in_range r c) rs"

definition special :: "char \<Rightarrow> bool" where
  "special c \<longleftrightarrow> c \<in> set ''^$.*+?()[]{}|'' \<or> c = CHR 0x5C"

text \<open>The inside of a bracket, up to the \<open>]\<close>.\<close>

fun bracket_ranges :: "string \<Rightarrow> ((char \<times> char) list \<times> string) option" where
  "bracket_ranges [] = None"
| "bracket_ranges [a] = (if a = CHR '']'' then Some ([], []) else None)"
| "bracket_ranges (a # b # s) =
     (if a = CHR '']'' then Some ([], b # s)
      else if a = CHR 0x5C then
        (if special b then map_option (\<lambda>(rs, r). ((b, b) # rs, r)) (bracket_ranges s) else None)
      else if b = CHR ''-'' \<and> s \<noteq> [] \<and> hd s \<noteq> CHR '']'' \<and> hd s \<noteq> CHR 0x5C then
        map_option (\<lambda>(rs, r). ((a, hd s) # rs, r)) (bracket_ranges (tl s))
      else map_option (\<lambda>(rs, r). ((a, a) # rs, r)) (bracket_ranges (b # s)))"

lemma bracket_ranges_shorter: "bracket_ranges s = Some p \<Longrightarrow> length (snd p) < length s"
proof (induction "length s" arbitrary: s p rule: less_induct)
  case less
  show ?case
  proof (cases s rule: bracket_ranges.cases)
    case (3 a b t)
    have IH: "bracket_ranges u = Some q \<Longrightarrow> length u \<le> Suc (length t) \<Longrightarrow> length (snd q) < length u" for u q
      using less.hyps [of u q] 3 by simp
    have bound: "length (snd q) < Suc (Suc (length t))"
      if "bracket_ranges u = Some q" and "length u \<le> Suc (length t)" for u q
      using IH [OF that] that(2) by simp
    show ?thesis
      using less.prems unfolding 3
      by (auto split: if_splits dest!: bound [of t] bound [of "tl t"] bound [of "b # t"])
  qed (use less.prems in \<open>auto split: if_splits\<close>)
qed

text \<open>One character, escape or bracket; and the quantifier after it.\<close>

definition re_atom :: "string \<Rightarrow> (char_class \<times> string) option" where
  "re_atom s =
     (case s of
        [] \<Rightarrow> None
      | a # s1 \<Rightarrow>
          if a = CHR 0x5C then
            (case s1 of
               [] \<Rightarrow> None
             | b # s2 \<Rightarrow>
                 if b = CHR ''s'' then Some (Space, s2)
                 else if special b then Some (Lit b, s2) else None)
          else if a = CHR ''['' then
            (case s1 of
               [] \<Rightarrow> None
             | b # s2 \<Rightarrow>
                 if b = CHR ''^'' then map_option (\<lambda>(rs, r). (Bracket True rs, r)) (bracket_ranges s2)
                 else map_option (\<lambda>(rs, r). (Bracket False rs, r)) (bracket_ranges s1))
          else if special a then None
          else Some (Lit a, s1))"

definition re_quantifier :: "string \<Rightarrow> quantifier \<times> string" where
  "re_quantifier s =
     (case s of
        [] \<Rightarrow> (Once, s)
      | a # s1 \<Rightarrow>
          if a = CHR ''*'' then (Star, s1) else if a = CHR ''+'' then (Plus, s1)
          else if a = CHR ''?'' then (Maybe, s1) else (Once, s))"

lemma re_atom_shorter: "re_atom s = Some (c, r) \<Longrightarrow> length r < length s"
  by (auto simp: re_atom_def split: list.splits if_splits dest!: bracket_ranges_shorter)

lemma re_quantifier_shorter: "length (snd (re_quantifier s)) \<le> length s"
  by (auto simp: re_quantifier_def split: list.splits)

function re_items :: "bool \<Rightarrow> string \<Rightarrow> item list option" where
  "re_items opened s =
     (case s of
        [] \<Rightarrow> if opened then None else Some []
      | a # s1 \<Rightarrow>
          if a = CHR ''('' then
            (if opened then None else map_option (\<lambda>its. Open # its) (re_items True s1))
          else if a = CHR '')'' then
            (if opened \<and> fst (re_quantifier s1) = Once
             then map_option (\<lambda>its. Close # its) (re_items False s1) else None)
          else
            (case re_atom s of
               None \<Rightarrow> None
             | Some (c, s2) \<Rightarrow>
                 map_option (\<lambda>its. Atom c (fst (re_quantifier s2)) # its)
                   (re_items opened (snd (re_quantifier s2)))))"
  by pat_completeness auto
termination
  by (relation "measure (\<lambda>(opened, s). length s)")
    (auto dest!: re_atom_shorter intro: le_less_trans [OF re_quantifier_shorter])

declare re_items.simps [simp del]

definition re_compile :: "string \<Rightarrow> item list option" where
  "re_compile regexstr = re_items False regexstr"

text \<open>The matcher, at the front of \<open>s\<close>: \<open>opened\<close> is what was left at the last \<open>Open\<close>, \<open>cap\<close> the text
  of the group. The result is what is left after the match, and the group.\<close>

definition take_one :: "char_class \<Rightarrow> string \<Rightarrow> string option" where
  "take_one c s = (case s of [] \<Rightarrow> None | x # s' \<Rightarrow> if class_has c x then Some s' else None)"

lemma take_one_eq_Some: "take_one c s = Some s' \<longleftrightarrow> (\<exists>x. s = x # s' \<and> class_has c x)"
  by (auto simp: take_one_def split: list.split)

function re_match :: "item list \<Rightarrow> string \<Rightarrow> string \<Rightarrow> string option \<Rightarrow> (string \<times> string option) option" where
  "re_match [] s opened cap = Some (s, cap)"
| "re_match (Open # its) s opened cap = re_match its s s cap"
| "re_match (Close # its) s opened cap =
     re_match its s opened (Some (take (length opened - length s) opened))"
| "re_match (Atom c Once # its) s opened cap =
     (case take_one c s of None \<Rightarrow> None | Some s' \<Rightarrow> re_match its s' opened cap)"
| "re_match (Atom c Plus # its) s opened cap =
     (case take_one c s of None \<Rightarrow> None | Some s' \<Rightarrow> re_match (Atom c Star # its) s' opened cap)"
| "re_match (Atom c Maybe # its) s opened cap =
     (case (case take_one c s of None \<Rightarrow> None | Some s' \<Rightarrow> re_match its s' opened cap) of
        Some r \<Rightarrow> Some r
      | None \<Rightarrow> re_match its s opened cap)"
| "re_match (Atom c Star # its) s opened cap =
     (case (case take_one c s of None \<Rightarrow> None | Some s' \<Rightarrow> re_match (Atom c Star # its) s' opened cap) of
        Some r \<Rightarrow> Some r
      | None \<Rightarrow> re_match its s opened cap)"
  by pat_completeness auto
termination
  by (relation "measures [\<lambda>(its, s, opened, cap). length its, \<lambda>(its, s, opened, cap). length s]")
    (auto simp: take_one_eq_Some)

text \<open>The leftmost match: where it begins, what is left after it, and the group.\<close>

fun re_search :: "item list \<Rightarrow> string \<Rightarrow> (string \<times> string \<times> string option) option" where
  "re_search its [] = map_option (\<lambda>(r, cap). ([], r, cap)) (re_match its [] [] None)"
| "re_search its (x # s) =
     (case re_match its (x # s) (x # s) None of
        Some (r, cap) \<Rightarrow> Some (x # s, r, cap)
      | None \<Rightarrow> re_search its s)"

definition groups :: "item list \<Rightarrow> nat" where
  "groups its = count_list its Open"

text \<open>\<open>regexExtract\<close>; \<open>None\<close>: the constructor of the regex throws.\<close>

definition extract_group :: "item list \<Rightarrow> string \<Rightarrow> string" where
  "extract_group its payload =
     (case re_search its payload of
        None \<Rightarrow> []
      | Some (at, r, cap) \<Rightarrow>
          if 1 + groups its \<noteq> 2 then [] else (case cap of None \<Rightarrow> [] | Some v \<Rightarrow> v))"

definition regexExtract :: "string \<Rightarrow> string \<Rightarrow> string option" where
  "regexExtract regexstr payload = map_option (\<lambda>its. extract_group its payload) (re_compile regexstr)"

subsection \<open>What a match is\<close>

text \<open>
  The reference meaning of a pattern, without order or backtracking: \<open>re_runs its s o c r c'\<close>, the
  items can take something off the front of \<open>s\<close>, leaving \<open>r\<close> and the group \<open>c'\<close>. The matcher's answer
  is such a run, and there is none when it fails.
\<close>

definition class_run :: "char_class \<Rightarrow> quantifier \<Rightarrow> string \<Rightarrow> bool" where
  "class_run c q w \<longleftrightarrow> list_all (class_has c) w \<and>
     (case q of Once \<Rightarrow> length w = 1 | Maybe \<Rightarrow> length w \<le> 1 | Star \<Rightarrow> True | Plus \<Rightarrow> w \<noteq> [])"

inductive re_runs :: "item list \<Rightarrow> string \<Rightarrow> string \<Rightarrow> string option \<Rightarrow> string \<Rightarrow> string option \<Rightarrow> bool" where
  done_run: "re_runs [] s opened cap s cap"
| open_run: "re_runs its s s cap r cap' \<Longrightarrow> re_runs (Open # its) s opened cap r cap'"
| close_run: "re_runs its s opened (Some (take (length opened - length s) opened)) r cap' \<Longrightarrow>
    re_runs (Close # its) s opened cap r cap'"
| atom_run: "class_run c q u \<Longrightarrow> re_runs its s opened cap r cap' \<Longrightarrow>
    re_runs (Atom c q # its) (u @ s) opened cap r cap'"

inductive_simps re_runs_simps:
  "re_runs [] s opened cap r cap'"
  "re_runs (Open # its) s opened cap r cap'"
  "re_runs (Close # its) s opened cap r cap'"
  "re_runs (Atom c q # its) s opened cap r cap'"

lemma re_runs_skip:
  "re_runs its s opened cap r cap' \<Longrightarrow> re_runs (Atom c Star # its) s opened cap r cap'"
  "re_runs its s opened cap r cap' \<Longrightarrow> re_runs (Atom c Maybe # its) s opened cap r cap'"
  using atom_run [of c _ "[]" its s] by (simp_all add: class_run_def)

lemma re_runs_one:
  assumes "take_one c s = Some s'"
  shows "re_runs its s' opened cap r cap' \<Longrightarrow> re_runs (Atom c Once # its) s opened cap r cap'"
    and "re_runs its s' opened cap r cap' \<Longrightarrow> re_runs (Atom c Maybe # its) s opened cap r cap'"
    and "re_runs (Atom c Star # its) s' opened cap r cap' \<Longrightarrow>
      re_runs (Atom c Star # its) s opened cap r cap'"
    and "re_runs (Atom c Star # its) s' opened cap r cap' \<Longrightarrow>
      re_runs (Atom c Plus # its) s opened cap r cap'"
proof -
  obtain x where x: "s = x # s'" "class_has c x" using assms by (auto simp: take_one_eq_Some)
  show "re_runs its s' opened cap r cap' \<Longrightarrow> re_runs (Atom c Once # its) s opened cap r cap'"
    "re_runs its s' opened cap r cap' \<Longrightarrow> re_runs (Atom c Maybe # its) s opened cap r cap'"
    using x atom_run [of c _ "[x]" its s'] by (simp_all add: class_run_def)
  assume "re_runs (Atom c Star # its) s' opened cap r cap'"
  then obtain u t where "s' = u @ t" "class_run c Star u" "re_runs its t opened cap r cap'"
    by (auto simp: re_runs_simps)
  then show "re_runs (Atom c Star # its) s opened cap r cap'" "re_runs (Atom c Plus # its) s opened cap r cap'"
    using x atom_run [of c _ "x # u" its t] by (simp_all add: class_run_def)
qed

lemma re_match_runs:
  "re_match its s opened cap = Some (r, cap') \<Longrightarrow> re_runs its s opened cap r cap'"
proof (induction its s opened cap rule: re_match.induct)
  case (4 c its s opened cap)
  from "4.prems" obtain s' where 1: "take_one c s = Some s'" and 2: "re_match its s' opened cap = Some (r, cap')"
    by (auto split: option.splits)
  from "4.IH" [OF this] show ?case by (rule re_runs_one(1) [OF 1])
next
  case (5 c its s opened cap)
  from "5.prems" obtain s' where 1: "take_one c s = Some s'"
    and 2: "re_match (Atom c Star # its) s' opened cap = Some (r, cap')"
    by (auto simp del: re_match.simps(7) split: option.splits)
  from "5.IH" [OF this] show ?case by (rule re_runs_one(4) [OF 1])
next
  case (6 c its s opened cap)
  let ?more = "case take_one c s of None \<Rightarrow> None | Some s' \<Rightarrow> re_match its s' opened cap"
  show ?case
  proof (cases ?more)
    case None
    with "6.prems" [unfolded re_match.simps(6) [of c its s]]
    have "re_match its s opened cap = Some (r, cap')"
      by (simp only: option.case)
    from "6.IH"(2) [OF None this] show ?thesis by (rule re_runs_skip(2))
  next
    case (Some p)
    with "6.prems" [unfolded re_match.simps(6) [of c its s]] have "p = (r, cap')"
      by (simp only: option.case option.inject)
    with Some obtain s' where 1: "take_one c s = Some s'"
      and 2: "re_match its s' opened cap = Some (r, cap')"
      by (simp del: re_match.simps split: option.splits)
    from "6.IH"(1) [OF this] show ?thesis by (rule re_runs_one(2) [OF 1])
  qed
next
  case (7 c its s opened cap)
  let ?more = "case take_one c s of None \<Rightarrow> None | Some s' \<Rightarrow> re_match (Atom c Star # its) s' opened cap"
  show ?case
  proof (cases ?more)
    case None
    with "7.prems" [unfolded re_match.simps(7) [of c its s]]
    have "re_match its s opened cap = Some (r, cap')"
      by (simp only: option.case)
    from "7.IH"(2) [OF None this] show ?thesis by (rule re_runs_skip(1))
  next
    case (Some p)
    with "7.prems" [unfolded re_match.simps(7) [of c its s]] have "p = (r, cap')"
      by (simp only: option.case option.inject)
    with Some obtain s' where 1: "take_one c s = Some s'"
      and 2: "re_match (Atom c Star # its) s' opened cap = Some (r, cap')"
      by (simp del: re_match.simps split: option.splits)
    from "7.IH"(1) [OF this] show ?thesis by (rule re_runs_one(3) [OF 1])
  qed
qed (simp_all add: re_runs_simps)

declare re_match.simps(7) [simp del]

lemma re_match_star [simp]:
  "re_match (Atom c Star # its) [] opened cap = re_match its [] opened cap"
  "re_match (Atom c Star # its) (x # s) opened cap =
     (case (if class_has c x then re_match (Atom c Star # its) s opened cap else None) of
        Some r \<Rightarrow> Some r
      | None \<Rightarrow> re_match its (x # s) opened cap)"
  by (simp_all add: re_match.simps(7) [of _ _ "[]"] re_match.simps(7) [of _ _ "x # s"] take_one_def)

lemma re_match_star_complete:
  "list_all (class_has c) u \<Longrightarrow> re_match its s opened cap \<noteq> None \<Longrightarrow>
     re_match (Atom c Star # its) (u @ s) opened cap \<noteq> None"
proof (induction u)
  case Nil
  then show ?case by (cases s) (auto split: option.split)
qed (auto split: option.split)

lemma re_match_complete:
  "re_runs its s opened cap r cap' \<Longrightarrow> re_match its s opened cap \<noteq> None"
proof (induction rule: re_runs.induct)
  case (atom_run c q u its s opened cap r cap')
  have all: "list_all (class_has c) u" using atom_run.hyps(1) by (simp add: class_run_def)
  have star: "re_match (Atom c Star # its) (u' @ s) opened cap \<noteq> None" if "list_all (class_has c) u'" for u'
    using that atom_run.IH by (rule re_match_star_complete)
  have "q = Star \<or> (\<exists>x u'. u = x # u' \<and> (q = Plus \<or> u' = [] \<and> (q = Once \<or> q = Maybe))) \<or> u = [] \<and> q = Maybe"
    using atom_run.hyps(1) by (cases q; cases u) (auto simp: class_run_def)
  then show ?case
  proof (elim disjE exE conjE)
    show ?case if "q = Star" using star [OF all] that by simp
    show ?case if "u = x # u'" and "q = Plus" for x u'
      using star [of u'] all that by (simp add: take_one_def)
    show ?case if "u = x # u'" "u' = []" "q = Once" for x u'
      using atom_run.IH all that by (simp add: take_one_def)
    show ?case if "u = x # u'" "u' = []" "q = Maybe" for x u'
      using atom_run.IH all that by (auto simp: take_one_def)
    show ?case if "u = []" "q = Maybe"
      using atom_run.IH that by (auto split: option.split)
  qed
qed simp_all

subsection \<open>All matches\<close>

text \<open>\<open>std::sregex_iterator\<close>, to its end: the groups of the successive matches, each searched after
  the one before. It stops after an empty match, which no pattern of the program has.\<close>

lemma re_runs_shorter: "re_runs its s opened cap r cap' \<Longrightarrow> length r \<le> length s"
  by (induction rule: re_runs.induct) auto

lemma re_search_shorter: "re_search its s = Some (at, r, cap) \<Longrightarrow> length r \<le> length at \<and> length at \<le> length s"
proof (induction its s rule: re_search.induct)
  case (1 its)
  then show ?case using re_runs_shorter re_match_runs by fastforce
next
  case (2 its x s)
  then show ?case
    using re_runs_shorter re_match_runs by (fastforce split: option.splits)
qed

function re_all :: "item list \<Rightarrow> string \<Rightarrow> string option list" where
  "re_all its s =
     (case re_search its s of
        None \<Rightarrow> []
      | Some (at, r, cap) \<Rightarrow> if length r < length at then cap # re_all its r else [cap])"
  by pat_completeness auto
termination
  by (relation "measure (\<lambda>(its, s). length s)") (auto dest: re_search_shorter)

declare re_all.simps [simp del]

subsection \<open>The leftmost match\<close>

lemma re_search_Some:
  "re_search its s = Some (at, r, cap) \<longleftrightarrow>
     (\<exists>pre. s = pre @ at \<and> re_match its at at None = Some (r, cap) \<and>
        (\<forall>p q. pre = p @ q \<and> q \<noteq> [] \<longrightarrow> re_match its (q @ at) (q @ at) None = None))"
proof (induction its s rule: re_search.induct)
  case (1 its)
  show ?case by (cases "re_match its [] [] None") auto
next
  case (2 its x s)
  show ?case (is "?lhs \<longleftrightarrow> (\<exists>pre. ?ok pre)")
  proof (cases "re_match its (x # s) (x # s) None")
    case None
    have "?ok pre \<longleftrightarrow> (\<exists>pre'. pre = x # pre' \<and> s = pre' @ at \<and> re_match its at at None = Some (r, cap) \<and>
        (\<forall>p q. pre' = p @ q \<and> q \<noteq> [] \<longrightarrow> re_match its (q @ at) (q @ at) None = None))" for pre
      using None by (cases pre) (auto simp: Cons_eq_append_conv)
    then show ?thesis using None 2 by auto
  next
    case (Some rc)
    have "?ok pre \<longleftrightarrow> pre = [] \<and> at = x # s \<and> rc = (r, cap)" for pre
      using Some by (cases pre) (fastforce simp: Cons_eq_append_conv)+
    then show ?thesis using Some by (cases rc) auto
  qed
qed

lemma re_search_None:
  "re_search its s = None \<longleftrightarrow> (\<forall>pre at. s = pre @ at \<longrightarrow> re_match its at at None = None)"
proof (induction its s rule: re_search.induct)
  case (2 its x s)
  have "(\<forall>pre at. x # s = pre @ at \<longrightarrow> re_match its at at None = None) \<longleftrightarrow>
      re_match its (x # s) (x # s) None = None \<and> (\<forall>pre at. s = pre @ at \<longrightarrow> re_match its at at None = None)"
    by (auto simp: Cons_eq_append_conv)
  then show ?case using 2 by (auto split: option.split)
qed simp

subsection \<open>Runs of one class\<close>

lemma re_match_star_greedy:
  "list_all (class_has c) u \<Longrightarrow> s = [] \<or> \<not> class_has c (hd s) \<Longrightarrow>
     re_match (Atom c Star # its) (u @ s) opened cap = re_match its s opened cap \<or>
     re_match its s opened cap = None"
proof (induction u)
  case Nil
  then show ?case by (cases s) auto
next
  case (Cons x u)
  then show ?case by (auto split: option.split)
qed

lemma re_match_star_run:
  assumes "list_all (class_has c) u" and "s = [] \<or> \<not> class_has c (hd s)"
    and "re_match its s opened cap = Some res"
  shows "re_match (Atom c Star # its) (u @ s) opened cap = Some res"
  using re_match_star_greedy [OF assms(1,2), of its opened cap] assms(3) by auto

lemma re_match_plus_run:
  assumes "list_all (class_has c) u" and "u \<noteq> []" and "s = [] \<or> \<not> class_has c (hd s)"
    and "re_match its s opened cap = Some res"
  shows "re_match (Atom c Plus # its) (u @ s) opened cap = Some res"
  using assms re_match_star_run [of c "tl u" s its opened cap res] by (cases u) (simp_all add: take_one_def)

definition lits :: "string \<Rightarrow> item list" where
  "lits w = map (\<lambda>c. Atom (Lit c) Once) w"

lemma lits_simps [simp]: "lits [] = []" "lits (c # w) = Atom (Lit c) Once # lits w"
  by (simp_all add: lits_def)

lemma re_match_lits [simp]: "re_match (lits w @ its) (w @ s) opened cap = re_match its s opened cap"
  by (induction w) (simp_all add: take_one_def)

lemma re_match_lits_prefix:
  "re_match (lits w @ its) s opened cap = Some res \<Longrightarrow> \<exists>t. s = w @ t"
  by (induction w arbitrary: s) (auto simp: take_one_eq_Some split: option.splits)

lemma re_runs_lits:
  "re_runs (lits w @ its) s opened cap r cap' \<longleftrightarrow> (\<exists>t. s = w @ t \<and> re_runs its t opened cap r cap')"
proof (induction w arbitrary: s)
  case (Cons x w)
  have "class_run (Lit x) Once u \<longleftrightarrow> u = [x]" for u
    by (cases u) (auto simp: class_run_def)
  with Cons show ?case by (auto simp: re_runs_simps)
qed simp

subsection \<open>Patterns for one member of a JSON object\<close>

text \<open>All patterns of the program begin with a quoted key, and all but one go on with a colon that may
  have spaces on both sides.\<close>

definition quoted :: "string \<Rightarrow> string" where
  "quoted w = CHR 0x22 # w @ [CHR 0x22]"

definition re_colon :: string where
  "re_colon = CHR 0x5C # ''s*:'' @ CHR 0x5C # ''s*''"

definition quoted_value :: "string \<Rightarrow> string \<Rightarrow> string" where
  "quoted_value key cls = quoted key @ re_colon @ CHR 0x22 # ''('' @ cls @ ''+)'' @ [CHR 0x22]"

definition bare_value :: "string \<Rightarrow> string \<Rightarrow> string" where
  "bare_value key cls = quoted key @ re_colon @ ''('' @ cls @ ''+)''"

definition colon_items :: "item list" where
  "colon_items = [Atom Space Star, Atom (Lit CHR '':'') Once, Atom Space Star]"

definition quoted_value_items :: "string \<Rightarrow> char_class \<Rightarrow> item list" where
  "quoted_value_items key c =
     lits (quoted key) @ colon_items @
     [Atom (Lit CHR 0x22) Once, Open, Atom c Plus, Close, Atom (Lit CHR 0x22) Once]"

definition bare_value_items :: "string \<Rightarrow> char_class \<Rightarrow> item list" where
  "bare_value_items key c = lits (quoted key) @ colon_items @ [Open, Atom c Plus, Close]"

text \<open>A text that is one bracket, as in a pattern.\<close>

definition bracket_text :: "string \<Rightarrow> char_class \<Rightarrow> bool" where
  "bracket_text cls c \<longleftrightarrow> (\<forall>rest. re_atom (cls @ rest) = Some (c, rest)) \<and> cls \<noteq> [] \<and> hd cls = CHR ''[''"

definition plain :: "string \<Rightarrow> bool" where
  "plain w \<longleftrightarrow> list_all (\<lambda>c. \<not> special c) w"

lemma special_iff [simp]:
  "special CHR 0x22 = False" "special CHR '':'' = False" "special CHR 0x5C" "special CHR ''[''"
  "special CHR '']''" "special CHR ''(''" "special CHR '')''" "special CHR ''*''" "special CHR ''+''"
  "special CHR ''?''"
  by (simp_all add: special_def)

lemma re_items_plain:
  assumes "plain w" and "rest = [] \<or> hd rest \<notin> {CHR ''*'', CHR ''+'', CHR ''?''}"
  shows "re_items opened (w @ rest) = map_option (\<lambda>its. lits w @ its) (re_items opened rest)"
  using assms(1)
proof (induction w)
  case Nil
  show ?case by (simp add: option.map_ident)
next
  case (Cons c w)
  then have c: "\<not> special c" "c \<noteq> CHR ''(''" "c \<noteq> CHR '')''" "c \<noteq> CHR ''[''" "c \<noteq> CHR 0x5C"
    by (auto simp: plain_def)
  have "re_quantifier (w @ rest) = (Once, w @ rest)"
    using Cons.prems assms(2) by (cases w; cases rest) (auto simp: re_quantifier_def plain_def)
  moreover have "re_atom (c # w @ rest) = Some (Lit c, w @ rest)"
    using c by (simp add: re_atom_def)
  ultimately show ?case
    using Cons c
    by (subst re_items.simps) (cases "re_items opened rest", simp_all add: plain_def)
qed

lemma plain_quoted: "plain key \<Longrightarrow> plain (quoted key)"
  by (simp add: plain_def quoted_def)

lemma re_items_colon:
  "rest = [] \<or> hd rest \<notin> {CHR ''*'', CHR ''+'', CHR ''?''} \<Longrightarrow>
     re_items opened (re_colon @ rest) = map_option (\<lambda>its. colon_items @ its) (re_items opened rest)"
  by (cases "re_items opened rest"; cases rest)
    (simp_all add: re_colon_def colon_items_def re_items.simps [of _ "_ # _"] re_atom_def re_quantifier_def)

lemma re_items_key:
  assumes "plain key"
  shows "re_items False (quoted key @ re_colon @ rest) =
    map_option (\<lambda>its. lits (quoted key) @ its) (re_items False (re_colon @ rest))"
  by (rule re_items_plain [OF plain_quoted [OF assms]]) (simp add: re_colon_def)

lemma re_items_group:
  assumes "bracket_text cls c"
  shows "re_items False (CHR ''('' # cls @ CHR ''+'' # CHR '')'' # rest) =
    (if fst (re_quantifier rest) = Once
     then map_option (\<lambda>its. [Open, Atom c Plus, Close] @ its) (re_items False rest) else None)"
proof -
  obtain u where u: "cls = CHR ''['' # u" using assms by (cases cls) (auto simp: bracket_text_def)
  have "re_atom (CHR ''['' # u @ CHR ''+'' # CHR '')'' # rest) = Some (c, CHR ''+'' # CHR '')'' # rest)"
    using assms unfolding bracket_text_def u by simp
  then show ?thesis
    by (cases "re_items False rest")
      (simp_all add: u re_items.simps [of _ "_ # _"] re_quantifier_def)
qed

lemma re_items_Nil [simp]: "re_items False [] = Some []"
  by (simp add: re_items.simps)

lemma re_items_quote: "re_items False [CHR 0x22] = Some [Atom (Lit CHR 0x22) Once]"
  by (simp add: re_items.simps re_atom_def re_quantifier_def)

lemma re_compile_quoted_value:
  assumes "plain key" and "bracket_text cls c"
  shows "re_compile (quoted_value key cls) = Some (quoted_value_items key c)"
proof -
  have "re_items False (CHR 0x22 # CHR ''('' # cls @ CHR ''+'' # CHR '')'' # [CHR 0x22]) =
      Some ([Atom (Lit CHR 0x22) Once, Open, Atom c Plus, Close, Atom (Lit CHR 0x22) Once])"
    using assms(2) re_items_plain [of "[CHR 0x22]" "CHR ''('' # cls @ CHR ''+'' # CHR '')'' # [CHR 0x22]" False]
    by (simp add: re_items_group re_items_quote re_quantifier_def plain_def)
  then show ?thesis
    using assms(1)
    by (simp add: re_compile_def quoted_value_def re_items_key re_items_colon quoted_value_items_def)
qed

lemma re_compile_bare_value:
  assumes "plain key" and "bracket_text cls c"
  shows "re_compile (bare_value key cls) = Some (bare_value_items key c)"
  using assms
  by (simp add: re_compile_def bare_value_def re_items_key re_items_colon bare_value_items_def
      re_items_group re_quantifier_def)

subsection \<open>What the patterns extract\<close>

lemma groups_items [simp]:
  "groups (quoted_value_items key c) = 1" "groups (bare_value_items key c) = 1"
proof -
  have "count_list (lits w) Open = 0" for w by (induction w) simp_all
  then show "groups (quoted_value_items key c) = 1" "groups (bare_value_items key c) = 1"
    by (simp_all add: groups_def quoted_value_items_def bare_value_items_def colon_items_def)
qed

definition spaces :: "string \<Rightarrow> bool" where
  "spaces w \<longleftrightarrow> list_all is_space w"

lemma not_space [simp]: "\<not> is_space CHR '':''" "\<not> is_space CHR 0x22" "\<not> is_space CHR ''[''"
  by (simp_all add: is_space_def)

lemma re_match_colon:
  assumes "spaces ws" "spaces ws'" "s = [] \<or> \<not> is_space (hd s)" "re_match its s opened cap = Some res"
  shows "re_match (colon_items @ its) (ws @ CHR '':'' # ws' @ s) opened cap = Some res"
proof -
  have 1: "re_match (Atom Space Star # its) (ws' @ s) opened cap = Some res"
    using assms by (intro re_match_star_run) (simp_all add: spaces_def list_all_iff)
  show ?thesis
    unfolding colon_items_def append_Cons append_Nil
    using assms(1) 1
    by (intro re_match_star_run) (simp_all add: spaces_def list_all_iff take_one_def)
qed

lemma no_earlier_key:
  assumes "\<not> sublist w (pre @ butlast w)" and "pre = p @ q" and "q \<noteq> []" and "at = w @ t"
  shows "re_match (lits w @ its) (q @ at) (q @ at) cap = None"
proof (rule ccontr)
  assume "re_match (lits w @ its) (q @ at) (q @ at) cap \<noteq> None"
  then obtain u where u: "q @ w @ t = w @ u"
    using re_match_lits_prefix assms(4) by blast
  have "w = take (length w) (q @ w)"
    using arg_cong [OF u, of "take (length w)"] by (simp add: min_def)
  also have "\<dots> = take (length w) (q @ butlast w)"
    using assms(3) by (cases "length w \<le> length q") (simp_all add: butlast_conv_take take_all_iff min_def Suc_leI flip: length_greater_0_conv)
  finally have "prefix w (q @ butlast w)"
    by (metis take_is_prefix)
  then have "sublist w (p @ q @ butlast w)"
    by (metis prefix_imp_sublist sublist_appendI append_Nil2 prefix_def sublist_append_leftI)
  with assms(1,2) show False by simp
qed

lemma re_search_first:
  assumes "\<not> sublist w (pre @ butlast w)"
    and "re_match (lits w @ its) (w @ t) (w @ t) None = Some (r, cap)"
  shows "re_search (lits w @ its) (pre @ w @ t) = Some (w @ t, r, cap)"
  unfolding re_search_Some using assms(2) no_earlier_key [OF assms(1) _ _ refl] by blast

lemma re_search_absent:
  assumes "\<not> sublist w s"
  shows "re_search (lits w @ its) s = None"
  unfolding re_search_None
proof (intro allI impI)
  fix pre u assume s: "s = pre @ u"
  show "re_match (lits w @ its) u u None = None"
  proof (rule ccontr)
    assume "re_match (lits w @ its) u u None \<noteq> None"
    then obtain t where "u = w @ t" using re_match_lits_prefix by blast
    with s assms show False by (auto simp: sublist_def)
  qed
qed

lemma extract_first:
  assumes "\<not> sublist w (pre @ butlast w)" and "groups (lits w @ its) = 1"
    and "re_match (lits w @ its) (w @ t) (w @ t) None = Some (r, Some v)"
  shows "extract_group (lits w @ its) (pre @ w @ t) = v"
  using re_search_first [OF assms(1,3)] assms(2) by (simp add: extract_group_def)

lemma extract_quoted_value:
  assumes "\<not> sublist (quoted key) (pre @ butlast (quoted key))"
    and "spaces ws" and "spaces ws'"
    and "v \<noteq> []" and "list_all (class_has c) v" and "\<not> class_has c CHR 0x22"
  shows "extract_group (quoted_value_items key c)
      (pre @ quoted key @ ws @ CHR '':'' # ws' @ quoted v @ post) = v"
proof -
  let ?body = "v @ CHR 0x22 # post"
  have "re_match [Atom c Plus, Close, Atom (Lit CHR 0x22) Once] ?body ?body None =
      Some (post, Some (take (length v) ?body))"
    by (rule re_match_plus_run) (use assms in \<open>simp_all add: take_one_def\<close>)
  then have "re_match (colon_items @ [Atom (Lit CHR 0x22) Once, Open, Atom c Plus, Close, Atom (Lit CHR 0x22) Once])
      (ws @ CHR '':'' # ws' @ quoted v @ post) (quoted key @ ws @ CHR '':'' # ws' @ quoted v @ post) None =
      Some (post, Some v)"
    using assms(2,3) by (intro re_match_colon) (simp_all add: quoted_def take_one_def)
  then show ?thesis
    using extract_first [OF assms(1), of "_ @ _"] groups_items(1) [of key c]
    unfolding quoted_value_items_def by (metis re_match_lits)
qed

lemma extract_bare_value:
  assumes "\<not> sublist (quoted key) (pre @ butlast (quoted key))"
    and "spaces ws" and "spaces ws'"
    and "v \<noteq> []" and "list_all (class_has c) v" and "\<not> is_space (hd v)"
    and "post = [] \<or> \<not> class_has c (hd post)"
  shows "extract_group (bare_value_items key c) (pre @ quoted key @ ws @ CHR '':'' # ws' @ v @ post) = v"
proof -
  have "re_match [Atom c Plus, Close] (v @ post) (v @ post) None = Some (post, Some (take (length v) (v @ post)))"
    by (rule re_match_plus_run) (use assms in simp_all)
  then have "re_match (colon_items @ [Open, Atom c Plus, Close])
      (ws @ CHR '':'' # ws' @ v @ post) (quoted key @ ws @ CHR '':'' # ws' @ v @ post) None =
      Some (post, Some v)"
    using assms(2,3,4,6) by (intro re_match_colon) simp_all
  then show ?thesis
    using extract_first [OF assms(1), of "_ @ _"] groups_items(2) [of key c]
    unfolding bare_value_items_def by (metis re_match_lits)
qed

lemma extract_absent:
  "\<not> sublist w s \<Longrightarrow> extract_group (lits w @ its) s = []"
  by (simp add: extract_group_def re_search_absent)

lemma extract_group_run:
  assumes "extract_group its s = v" and "v \<noteq> []"
  shows "\<exists>pre at r. s = pre @ at \<and> re_runs its at at None r (Some v)"
proof -
  have "re_search its s \<noteq> None"
    using assms by (metis extract_group_def option.case(1))
  then obtain at r cap where some: "re_search its s = Some (at, r, cap)" by auto
  then have "extract_group its s = (if 1 + groups its \<noteq> 2 then [] else (case cap of None \<Rightarrow> [] | Some v \<Rightarrow> v))"
    by (simp only: extract_group_def option.case prod.case)
  with assms have "cap = Some v"
    by (cases cap) (simp_all only: option.case split: if_splits)
  with some have found: "re_search its s = Some (at, r, Some v)" by simp
  then obtain pre where "s = pre @ at" and "re_match its at at None = Some (r, Some v)"
    unfolding re_search_Some by (elim exE conjE)
  then show ?thesis using re_match_runs [of its at at None r "Some v"] by (intro exI conjI) simp_all
qed

lemma class_run_Lit [simp]: "class_run (Lit x) Once u \<longleftrightarrow> u = [x]"
  by (cases u) (auto simp: class_run_def)

lemma re_runs_lit:
  "re_runs (Atom (Lit x) Once # its) s opened cap r cap' \<longleftrightarrow> (\<exists>t. s = x # t \<and> re_runs its t opened cap r cap')"
  by (auto simp: re_runs_simps)

lemma re_runs_spaces:
  "re_runs (Atom Space Star # its) s opened cap r cap' \<longleftrightarrow>
     (\<exists>ws t. s = ws @ t \<and> spaces ws \<and> re_runs its t opened cap r cap')"
proof -
  have "class_run Space Star ws \<longleftrightarrow> spaces ws" for ws
    by (induction ws) (auto simp: class_run_def spaces_def)
  then show ?thesis by (auto simp: re_runs_simps)
qed

lemma re_runs_group:
  "re_runs (Open # Atom c Plus # Close # its) s opened cap r cap' \<longleftrightarrow>
     (\<exists>v t. s = v @ t \<and> v \<noteq> [] \<and> list_all (class_has c) v \<and> re_runs its t s (Some v) r cap')"
proof
  assume "re_runs (Open # Atom c Plus # Close # its) s opened cap r cap'"
  then obtain v t where "s = v @ t" "v \<noteq> []" "list_all (class_has c) v" "re_runs its t s (Some v) r cap'"
    by (auto simp: re_runs_simps class_run_def)
  then show "\<exists>v t. s = v @ t \<and> v \<noteq> [] \<and> list_all (class_has c) v \<and> re_runs its t s (Some v) r cap'"
    by blast
next
  assume "\<exists>v t. s = v @ t \<and> v \<noteq> [] \<and> list_all (class_has c) v \<and> re_runs its t s (Some v) r cap'"
  then obtain v t where "s = v @ t" "v \<noteq> []" "list_all (class_has c) v" "re_runs its t s (Some v) r cap'"
    by blast
  then show "re_runs (Open # Atom c Plus # Close # its) s opened cap r cap'"
    unfolding re_runs_simps
    by (intro exI [of _ v] exI [of _ t]) (simp add: re_runs_simps class_run_def)
qed

lemma re_runs_colon:
  "re_runs (colon_items @ its) s opened cap r cap' \<longleftrightarrow>
     (\<exists>ws ws' t. s = ws @ CHR '':'' # ws' @ t \<and> spaces ws \<and> spaces ws' \<and> re_runs its t opened cap r cap')"
  by (simp only: colon_items_def append.simps re_runs_spaces re_runs_lit) blast

lemma extract_quoted_sound:
  assumes "extract_group (quoted_value_items key c) s = v" and "v \<noteq> []"
  shows "\<exists>pre ws ws' post. s = pre @ quoted key @ ws @ CHR '':'' # ws' @ quoted v @ post \<and>
    spaces ws \<and> spaces ws' \<and> list_all (class_has c) v"
proof -
  obtain pre at r where s: "s = pre @ at"
    and run: "re_runs (quoted_value_items key c) at at None r (Some v)"
    using extract_group_run [OF assms] by blast
  have "\<exists>ws ws'. at = quoted key @ ws @ CHR '':'' # ws' @ quoted v @ r \<and> spaces ws \<and> spaces ws' \<and>
      list_all (class_has c) v"
    using run unfolding quoted_value_items_def re_runs_lits re_runs_colon re_runs_lit re_runs_group re_runs_simps(1)
    by (clarsimp simp: quoted_def [of v]) blast
  with s show ?thesis by blast
qed

lemma extract_bare_sound:
  assumes "extract_group (bare_value_items key c) s = v" and "v \<noteq> []"
  shows "\<exists>pre ws ws' post. s = pre @ quoted key @ ws @ CHR '':'' # ws' @ v @ post \<and>
    spaces ws \<and> spaces ws' \<and> list_all (class_has c) v"
proof -
  obtain pre at r where s: "s = pre @ at"
    and run: "re_runs (bare_value_items key c) at at None r (Some v)"
    using extract_group_run [OF assms] by blast
  have "\<exists>ws ws'. at = quoted key @ ws @ CHR '':'' # ws' @ v @ r \<and> spaces ws \<and> spaces ws' \<and>
      list_all (class_has c) v"
    using run unfolding bare_value_items_def re_runs_lits re_runs_colon re_runs_group re_runs_simps(1)
    by clarsimp blast
  with s show ?thesis by blast
qed

text \<open>The brackets of the program's patterns.\<close>

definition not_quote :: char_class where "not_quote = Bracket True [(CHR 0x22, CHR 0x22)]"
definition capitals :: char_class where "capitals = Bracket False [(CHR ''A'', CHR ''Z'')]"
definition digits :: char_class where "digits = Bracket False [(CHR ''0'', CHR ''9'')]"
definition digits_dot :: char_class where
  "digits_dot = Bracket False [(CHR ''0'', CHR ''9''), (CHR ''.'', CHR ''.'')]"
definition video_chars :: char_class where
  "video_chars =
     Bracket False [(CHR ''A'', CHR ''Z''), (CHR ''a'', CHR ''z''), (CHR ''0'', CHR ''9''),
       (CHR ''_'', CHR ''_''), (CHR ''-'', CHR ''-'')]"

lemma bracket_texts:
  "bracket_text (''[^'' @ CHR 0x22 # '']'') not_quote" "bracket_text ''[A-Z]'' capitals"
  "bracket_text ''[0-9]'' digits" "bracket_text ''[0-9.]'' digits_dot"
  "bracket_text ''[A-Za-z0-9_-]'' video_chars"
proof -
  have close: "bracket_ranges (CHR '']'' # rest) = Some ([], rest)" for rest by (cases rest) simp_all
  show "bracket_text (''[^'' @ CHR 0x22 # '']'') not_quote" "bracket_text ''[A-Z]'' capitals"
    "bracket_text ''[0-9]'' digits" "bracket_text ''[0-9.]'' digits_dot"
    "bracket_text ''[A-Za-z0-9_-]'' video_chars"
    by (simp_all add: bracket_text_def re_atom_def close not_quote_def capitals_def digits_def
        digits_dot_def video_chars_def)
qed

lemmas regexExtract_values =
  re_compile_quoted_value [OF _ bracket_texts(1)] re_compile_quoted_value [OF _ bracket_texts(2)]
  re_compile_quoted_value [OF _ bracket_texts(5)]
  re_compile_bare_value [OF _ bracket_texts(3)] re_compile_bare_value [OF _ bracket_texts(4)]

lemma class_has_not_quote: "class_has not_quote c \<longleftrightarrow> c \<noteq> CHR 0x22"
proof -
  have "of_char CHR 0x22 = (34 :: nat)" by simp
  moreover have "of_char c = (34 :: nat) \<longleftrightarrow> c = CHR 0x22"
    by (metis char_of_char calculation)
  ultimately show ?thesis by (auto simp: not_quote_def in_range_def)
qed

subsection \<open>stringSplit and its inverse\<close>

fun join :: "char \<Rightarrow> string list \<Rightarrow> string" where
  "join d [] = []"
| "join d [p] = p"
| "join d (p # q # ps) = p @ d # join d (q # ps)"

lemma join_snoc: "ps \<noteq> [] \<Longrightarrow> join d (ps @ [p]) = join d ps @ d # p"
  by (induction d ps rule: join.induct) auto

lemma find_char_Some:
  "find_char d s start = Some e \<Longrightarrow>
     drop start s = take (e - start) (drop start s) @ d # drop (Suc e) s \<and> d \<notin> set (take (e - start) (drop start s))"
proof -
  assume *: "find_char d s start = Some e"
  let ?r = "drop start s" and ?k = "length (takeWhile (\<lambda>x. x \<noteq> d) (drop start s))"
  from * have k: "?k < length ?r" and e: "e = start + ?k"
    by (auto simp: find_char_def Let_def split: if_splits)
  have "?r ! ?k = d" using nth_length_takeWhile [OF k] by simp
  then have "?r = take ?k ?r @ d # drop (Suc ?k) ?r"
    using id_take_nth_drop [OF k] by simp
  moreover have "take ?k ?r = takeWhile (\<lambda>x. x \<noteq> d) ?r"
    by (metis takeWhile_eq_take)
  moreover have "d \<notin> set (takeWhile (\<lambda>x. x \<noteq> d) ?r)"
    using set_takeWhileD by fastforce
  ultimately show ?thesis by (simp add: e add.commute)
qed

lemma find_char_None: "find_char d s start = None \<Longrightarrow> d \<notin> set (drop start s)"
proof -
  assume "find_char d s start = None"
  then have "length (takeWhile (\<lambda>x. x \<noteq> d) (drop start s)) = length (drop start s)"
    using length_takeWhile_le [of "\<lambda>x. x \<noteq> d" "drop start s"] by (auto simp: find_char_def Let_def split: if_splits)
  then have "takeWhile (\<lambda>x. x \<noteq> d) (drop start s) = drop start s"
    by (metis takeWhile_eq_take take_all order_refl)
  then show ?thesis by (metis (mono_tags, lifting) set_takeWhileD)
qed

lemma stringSplit_loop_join:
  assumes "stringSplit_loop s d start ret = (start', ret')" and "start \<le> length s"
    and "join d (ret @ [drop start s]) = s" and "\<forall>p \<in> set ret. d \<notin> set p"
  shows "join d (ret' @ [drop start' s]) = s \<and> (\<forall>p \<in> set (ret' @ [drop start' s]). d \<notin> set p)"
  using assms
proof (induction s d start ret rule: stringSplit_loop.induct)
  case (1 s d start ret)
  show ?case
  proof (cases "start < length s \<and> find_char d s start \<noteq> None")
    case True
    then obtain e where e: "start < length s" "find_char d s start = Some e" by blast
    let ?p = "take (e - start) (drop start s)"
    have split: "drop start s = ?p @ d # drop (Suc e) s" and clean: "d \<notin> set ?p"
      using find_char_Some [OF e(2)] by blast+
    have "join d ((ret @ [?p]) @ [drop (Suc e) s]) = join d (ret @ [drop start s])"
      using split join_snoc [of "ret @ [?p]" d "drop (Suc e) s"] join_snoc [of ret d]
      by (cases "ret = []") simp_all
    then show ?thesis
      using 1 e clean find_char_bounds [OF e(2)] by (simp add: stringSplit_loop.simps [of s d start])
  next
    case False
    then have "(start', ret') = (start, ret)"
      using "1.prems"(1) by (simp add: stringSplit_loop.simps [of s d start] split: option.splits if_splits)
    moreover have "d \<notin> set (drop start s)"
      using False "1.prems"(2) find_char_None by (cases "start < length s") auto
    ultimately show ?thesis using "1.prems" by simp
  qed
qed

lemma first_delimiter:
  "p @ d # x = p' @ d # x' \<Longrightarrow> d \<notin> set p \<Longrightarrow> d \<notin> set p' \<Longrightarrow> p = p' \<and> x = x'"
proof (induction p arbitrary: p')
  case Nil
  then show ?case by (cases p') auto
next
  case (Cons a p)
  then show ?case by (cases p') auto
qed

lemma join_inject:
  "ps \<noteq> [] \<Longrightarrow> qs \<noteq> [] \<Longrightarrow> \<forall>p \<in> set ps. d \<notin> set p \<Longrightarrow> \<forall>p \<in> set qs. d \<notin> set p \<Longrightarrow>
     join d ps = join d qs \<Longrightarrow> ps = qs"
proof (induction d ps arbitrary: qs rule: join.induct)
  case (2 d p)
  then show ?case by (cases "(d, qs)" rule: join.cases) auto
next
  case (3 d p q ps)
  show ?case
  proof (cases "(d, qs)" rule: join.cases)
    case (3 _ p' q' ps')
    with "3.prems" have "p @ d # join d (q # ps) = p' @ d # join d (q' # ps')" "d \<notin> set p" "d \<notin> set p'"
      by auto
    then have "p = p' \<and> join d (q # ps) = join d (q' # ps')"
      by (rule first_delimiter)
    moreover from this have "q # ps = q' # ps'"
      by (intro "3.IH") (use "3.prems" 3 in simp_all)
    ultimately show ?thesis using 3 by simp
  next
    case (2 _ p')
    with "3.prems" have "d \<in> set p'" by (metis UnCI insertI1 join.simps(2,3) list.set(2) prod.inject set_append)
    with "3.prems" 2 show ?thesis by simp
  qed (use "3.prems" in simp)
qed simp

lemma stringSplit_pieces:
  "join d (stringSplit s d) = s \<and> stringSplit s d \<noteq> [] \<and> (\<forall>p \<in> set (stringSplit s d). d \<notin> set p)"
proof -
  obtain start ret where loop: "stringSplit_loop s d 0 [] = (start, ret)"
    by (cases "stringSplit_loop s d 0 []")
  then show ?thesis using stringSplit_loop_join [OF loop] by (simp add: stringSplit_def)
qed

lemma stringSplit_unique:
  assumes "ps \<noteq> []" and "join d ps = s" and "list_all (\<lambda>p. d \<notin> set p) ps"
  shows "stringSplit s d = ps"
  using join_inject [of "stringSplit s d" ps d] stringSplit_pieces [of d s] assms by (simp add: list_all_iff)

subsection \<open>Properties\<close>

text \<open>C19. \<open>stringSplit\<close> splits at every delimiter: its result is the one non-empty list of delimiter-free
  pieces that joined give the string back, a trailing delimiter contributing an empty last piece.\<close>

theorem stringSplit_correct:
  "(ps \<noteq> [] \<and> join d ps = s \<and> list_all (\<lambda>p. d \<notin> set p) ps) \<longleftrightarrow> ps = stringSplit s d"
  using stringSplit_pieces [of d s] stringSplit_unique [of ps d s] by (auto simp: list_all_iff)


text \<open>C14. What a pattern for a string member extracts from a JSON text: the value of the first member of that
  name (no value if it is not there), and whatever it extracts is the value of such a member.\<close>

theorem regexExtract_string_member:
  assumes "plain key" and "spaces ws" and "spaces ws'" and "v \<noteq> []" and "CHR 0x22 \<notin> set v"
    and "\<not> sublist (quoted key) (pre @ butlast (quoted key))"
  shows "regexExtract (quoted_value key (''[^'' @ CHR 0x22 # '']''))
      (pre @ quoted key @ ws @ CHR '':'' # ws' @ quoted v @ post) = Some v \<and>
    (\<not> sublist (quoted key) s \<longrightarrow> regexExtract (quoted_value key (''[^'' @ CHR 0x22 # '']'')) s = Some [])"
proof -
  have c: "re_compile (quoted_value key (''[^'' @ CHR 0x22 # '']'')) = Some (quoted_value_items key not_quote)"
    using re_compile_quoted_value [OF assms(1) bracket_texts(1)] .
  have "extract_group (quoted_value_items key not_quote)
      (pre @ quoted key @ ws @ CHR '':'' # ws' @ quoted v @ post) = v"
    using assms(5) by (intro extract_quoted_value assms)
      (auto simp: class_has_not_quote list_all_iff)
  then show ?thesis
    using extract_absent [of "quoted key" s]
    by (simp only: regexExtract_def c option.map) (simp add: quoted_value_items_def)
qed

theorem regexExtract_string_member_witness:
  "regexExtract (quoted_value ''type'' (''[^'' @ CHR 0x22 # '']'')) (''{'' @ quoted ''type'' @ '' : '' @ quoted ''PING'' @ ''}'') =
     Some ''PING''"
proof -
  have "\<not> sublist (quoted ''type'') (''{'' @ butlast (quoted ''type''))"
    by (simp add: quoted_def sublist_Cons_right)
  from regexExtract_string_member [OF _ _ _ _ _ this, of "'' ''" "'' ''" "''PING''" "''}''" "[]"]
  show ?thesis by (simp add: plain_def special_def spaces_def is_space_def)
qed

end
