(* ===== verification/Connection.thy ===== *)
theory Connection
  imports World Util
begin

text \<open>
  \<open>connection.h\<close>: a TLS connection, and \<open>downloadFile\<close>.

  A \<open>connection\<close> keeps \<open>eof\<close>, the descriptor, and the two pointers the destructor tests. \<open>read\<close> and
  \<open>write\<close> make one call of the library each, whatever the size. The destructor runs where the C++
  object goes out of scope, on every path.
\<close>

record connection =
  eof :: bool
  ctx :: "addr option"
  handle :: "addr option"
  fd :: int

definition PING_INTERVAL :: int where "PING_INTERVAL = 30"

text \<open>The constructor; a failed \<open>assert\<close> stops the program.\<close>

definition new_connection :: "env \<Rightarrow> world \<Rightarrow> (connection \<times> world) option" where
  "new_connection E w = do {
     (method, w) \<leftarrow> TLS_client_method E w;
     (ctx, w) \<leftarrow> SSL_CTX_new E w;
     if ctx = None then None else do {
       (_, w) \<leftarrow> SSL_CTX_set_verify E w;
       (handle, w) \<leftarrow> SSL_new E w;
       Some (\<lparr>eof = False, ctx = ctx, handle = handle, fd = - 1\<rparr>, w)
     }
   }"

definition close_fd :: "env \<Rightarrow> int \<Rightarrow> world \<Rightarrow> world" where
  "close_fd E d w = emit (Closed_socket d) (snd (sys E (env_int E) w))"

definition delete_connection :: "env \<Rightarrow> connection \<Rightarrow> world \<Rightarrow> (unit \<times> world) option" where
  "delete_connection E c w = do {
     (_, w) \<leftarrow> (if handle c \<noteq> None then SSL_free E w else Some ((), w));
     (_, w) \<leftarrow> (if ctx c \<noteq> None then SSL_CTX_free E w else Some ((), w));
     Some ((), if 0 < fd c then close_fd E (fd c) w else w)
   }"

definition inet_ntoa :: "byte \<times> byte \<times> byte \<times> byte \<Rightarrow> string" where
  "inet_ntoa a =
     (case a of (b1, b2, b3, b4) \<Rightarrow>
        dec (unat b1) @ ''.'' @ dec (unat b2) @ ''.'' @ dec (unat b3) @ ''.'' @ dec (unat b4))"

definition perror :: "string \<Rightarrow> world \<Rightarrow> world" where
  "perror s = emit (Perror s)"

definition connect :: "env \<Rightarrow> connection \<Rightarrow> sockaddr_in \<Rightarrow> world \<Rightarrow> (bool \<times> connection \<times> world) option" where
  "connect E c address w =
     (let (d, w) = sys E (env_int E) w;
          c = c\<lparr>fd := d\<rparr>
      in if d < 0 then Some (False, c, perror ''Failed to open socket'' w)
         else let (ret, w) = sys E (env_int E) w
         in if ret \<noteq> 0 then Some (False, c, perror ''Failed to set socket timeout'' w)
         else let addressString = inet_ntoa (sin_addr address) @ '':'' @ dec (sin_port address);
                  (ret, w) = sys E (env_int E) w
         in if ret \<noteq> 0 then Some (False, c, perror (''Failed to connect to '' @ addressString) w)
         else do {
           (_, w) \<leftarrow> SSL_set_fd E (emit (Connected_to address) w);
           (ret, w) \<leftarrow> SSL_connect E w;
           if ret \<noteq> 1 then do {
             (code, w) \<leftarrow> SSL_get_error E ret w;
             Some (False, c, cerr (''SSL error: '' @ dec_int code) w)
           } else Some (True, c, w)
         })"

definition conn_write :: "env \<Rightarrow> byte list \<Rightarrow> world \<Rightarrow> (bool \<times> world) option" where
  "conn_write E data w = do {
     (n, w) \<leftarrow> SSL_write E data w;
     Some (n = int (length data), w)
   }"

text \<open>A negative size makes the buffer's constructor throw.\<close>

definition conn_read :: "env \<Rightarrow> connection \<Rightarrow> int \<Rightarrow> world \<Rightarrow> (string \<times> connection \<times> world) option" where
  "conn_read E c n w =
     (if n < 0 then None
      else do {
        (amount, w) \<leftarrow> SSL_read E n w;
        (case amount of
           Inl code \<Rightarrow> do {
             (e, w) \<leftarrow> SSL_get_error E code w;
             Some ('''', c, cerr (''SSL read error: '' @ dec_int e) w)
           }
         | Inr buffer \<Rightarrow>
             Some (buffer, if buffer = [] then c\<lparr>eof := True\<rparr> else c, w))
      })"

text \<open>\<open>std::string::find\<close> of a text, at or after the start.\<close>

fun find_text :: "string \<Rightarrow> string \<Rightarrow> nat option" where
  "find_text t [] = (if t = [] then Some 0 else None)"
| "find_text t (x # s) =
     (if take (length t) (x # s) = t then Some 0 else map_option Suc (find_text t s))"

definition crlf :: string where
  "crlf = [CHR 0x0D, CHR 0x0A]"

definition get_request :: "string \<Rightarrow> string \<Rightarrow> string" where
  "get_request hostname filePath =
     ''GET '' @ filePath @ '' HTTP/1.1'' @ crlf @
     ''Host: '' @ hostname @ crlf @
     ''User-Agent: fuckifiknow/1.0'' @ crlf @
     ''Accept: */*'' @ crlf @
     crlf"

definition http_body :: "string \<Rightarrow> string option" where
  "http_body response =
     (let endOfHeaderMarker = crlf @ crlf
      in map_option (\<lambda>endOfHeader. drop (endOfHeader + length endOfHeaderMarker) response)
           (find_text endOfHeaderMarker response))"

text \<open>The part of \<open>downloadFile\<close> with the connection alive.\<close>

definition download_on ::
  "env \<Rightarrow> connection \<Rightarrow> sockaddr_in \<Rightarrow> string \<Rightarrow> string \<Rightarrow> world \<Rightarrow> (string \<times> connection \<times> world) option"
where
  "download_on E c serverAddress hostname filePath w = do {
     (ok, c, w) \<leftarrow> connect E c serverAddress w;
     if \<not> ok then Some ('''', c, cerr (''Failed to connect to '' @ hostname) w)
     else do {
       (ok, w) \<leftarrow> conn_write E (bytes_of (get_request hostname filePath)) w;
       if \<not> ok then Some ('''', c, puts ''Failed to write GET request'' w)
       else do {
         (response, c, w) \<leftarrow> conn_read E c (1024 * 1024) w;
         (case http_body response of
            None \<Rightarrow> Some ('''', c, puts ''Failed to find end of header in returned data'' w)
          | Some body \<Rightarrow> Some (body, c, w))
       }
     }
   }"

definition downloadFile :: "env \<Rightarrow> string \<Rightarrow> nat \<Rightarrow> string \<Rightarrow> world \<Rightarrow> (string \<times> world) option" where
  "downloadFile E hostname port filePath w =
     (let w = when_verbose (puts (''Downloading: '' @ hostname @ '':'' @ dec port @ ''/'' @ filePath)) w;
          (hostinfo, w) = sys E (\<lambda>t. env_host E t hostname) w
      in case hostinfo of
           None \<Rightarrow> Some ('''', perror (''Failed to resolve '' @ hostname) w)
         | Some address \<Rightarrow> do {
             (c, w) \<leftarrow> new_connection E w;
             (body, c, w) \<leftarrow> download_on E c \<lparr>sin_port = port mod 2 ^ 16, sin_addr = address\<rparr> hostname filePath w;
             (_, w) \<leftarrow> delete_connection E c w;
             Some (body, w)
           })"

subsection \<open>What a write does\<close>

lemma conn_write_effect:
  "conn_write E data w = Some (ok, w') \<Longrightarrow> core w' = core w \<and> sends w' = sends w @ [data]"
  by (auto simp: conn_write_def SSL_write_def through_eq_Some Option.bind_eq_Some_conv)

lemma conn_write_defined:
  "EXT_SSL_write (ssl w) \<noteq> None \<Longrightarrow>
     \<exists>w'. conn_write E data w = Some (env_int E (tick w) = int (length data), w')"
  using fst_sys [of E "env_int E" w]
  by (cases "sys E (env_int E) w") (auto simp: conn_write_def SSL_write_def through_def)

end
