(* ===== verification/Chromecast.thy ===== *)
theory Chromecast
  imports Connection Double_Facts
begin

text \<open>
  \<open>chromecast.h\<close>: what the program says to the device. Every message is one \<open>CastMessage\<close>, framed by
  its size as a 32-bit big-endian number, handed to one \<open>SSL_write\<close>. The JSON texts are put together
  from string literals, the media session and the request counter, whose overflow is undefined.
\<close>

datatype cast_ns = NsConnection | NsReceiver | NsHeartbeat | NsMedia | NamespacesCount

primrec ns_strings :: "cast_ns \<Rightarrow> string" where
  "ns_strings NsConnection = ''urn:x-cast:com.google.cast.tp.connection''"
| "ns_strings NsReceiver = ''urn:x-cast:com.google.cast.receiver''"
| "ns_strings NsHeartbeat = ''urn:x-cast:com.google.cast.tp.heartbeat''"
| "ns_strings NsMedia = ''urn:x-cast:com.google.cast.media''"
| "ns_strings NamespacesCount = ''''"

datatype msg_type = MsgConnect | MsgPing | MsgPong | MsgGetStatus | MsgMediaStatus | SimpleMessageCount

primrec simple_msgs :: "msg_type \<Rightarrow> string" where
  "simple_msgs MsgConnect = ''{'' @ quoted ''type'' @ '': '' @ quoted ''CONNECT'' @ ''}''"
| "simple_msgs MsgPing = ''{'' @ quoted ''type'' @ '': '' @ quoted ''PING'' @ ''}''"
| "simple_msgs MsgPong = ''{'' @ quoted ''type'' @ '': '' @ quoted ''PONG'' @ ''}''"
| "simple_msgs MsgGetStatus =
     ''{'' @ quoted ''type'' @ '': '' @ quoted ''GET_STATUS'' @ '', '' @ quoted ''requestId'' @ '': 1}''"
| "simple_msgs MsgMediaStatus = ''{'' @ quoted ''type'' @ '': '' @ quoted ''MEDIA_STATUS'' @ ''}''"
| "simple_msgs SimpleMessageCount = ''''"

text \<open>\<open>htonl\<close>, and the \<open>memcpy\<close> of its result to the front of the buffer.\<close>

definition htonl :: "target \<Rightarrow> u32 \<Rightarrow> u32" where
  "htonl tg v = (if isbig tg then v else bswap v)"

definition message_for :: "string \<Rightarrow> string \<Rightarrow> string \<Rightarrow> cast_message" where
  "message_for to ns message =
     cast_reset\<lparr>payload_type := STRING, protocol_version := CASTV2_1_0, namespace := ns,
       source_id := ''sender-0'', destination_id := (if to = [] then ''receiver-0'' else to),
       payload_utf8 := message\<rparr>"

definition sendMessage :: "env \<Rightarrow> string \<Rightarrow> string \<Rightarrow> world \<Rightarrow> (bool \<times> world) option" where
  "sendMessage E ns message w =
     (let w = when_verbose
            (puts (''Sending to '' @ [CHR 0x27] @ dest w @ [CHR 0x27] @ '': '' @ [CHR 0x27] @ ns @ '': '' @
              [CHR 0x27] @ message @ [CHR 0x27])) w;
          msg = message_for (dest w) ns message;
          byteSize = htonl (env_target E) (of_nat (cast_size msg));
          buffer = store_int (env_target E) byteSize
      in case cast_serialize (env_target E) msg buffer of
           (False, st) \<Rightarrow> Some (False, puts ''Failed to serialize'' w)
         | (True, st) \<Rightarrow> conn_write E (obuf st) w)"

text \<open>\<open>std::to_string(s_requestId++)\<close>.\<close>

definition next_request_id :: "world \<Rightarrow> (string \<times> world) option" where
  "next_request_id w =
     (if int_ok (s_requestId w + 1)
      then Some (dec_int (s_requestId w), w\<lparr>s_requestId := s_requestId w + 1\<rparr>) else None)"

text \<open>The JSON texts.\<close>

definition get_status_text :: "string \<Rightarrow> string \<Rightarrow> string" where
  "get_status_text rid session =
     ''{  '' @ quoted ''type'' @ '': '' @ quoted ''GET_STATUS'' @ '',  '' @
     quoted ''requestId'' @ '': '' @ rid @ '',  '' @
     quoted ''mediaSessionId'' @ '': '' @ quoted session @ ''}''"

definition seek_text :: "string \<Rightarrow> string \<Rightarrow> dbl \<Rightarrow> string" where
  "seek_text rid session position =
     ''{  '' @ quoted ''type'' @ '': '' @ quoted ''SEEK'' @ '',  '' @
     quoted ''requestId'' @ '': '' @ rid @ '',  '' @
     quoted ''mediaSessionId'' @ '': '' @ quoted session @ '',  '' @
     quoted ''currentTime'' @ '': '' @ fmt_f position @ ''}''"

definition command_text :: "string \<Rightarrow> string \<Rightarrow> string \<Rightarrow> string" where
  "command_text rid session command =
     ''{  '' @ quoted ''type'' @ '': '' @ quoted command @ '',  '' @
     quoted ''requestId'' @ '': '' @ rid @ '',  '' @
     quoted ''mediaSessionId'' @ '': '' @ quoted session @ '' }''"

definition load_text :: "string \<Rightarrow> string \<Rightarrow> dbl \<Rightarrow> string" where
  "load_text rid video position =
     ''{  '' @ quoted ''type'' @ '': '' @ quoted ''LOAD'' @ '',  '' @
     quoted ''requestId'' @ '': '' @ rid @ '',  '' @
     quoted ''media'' @ '': {   '' @ quoted ''contentId'' @ '': '' @ quoted video @ '',    '' @
     quoted ''streamType'' @ '': '' @ quoted ''BUFFERED'' @ '',    '' @
     quoted ''contentType'' @ '': '' @ quoted ''x-youtube/video'' @ ''  },  '' @
     quoted ''currentTime'' @ '': '' @ fmt_f position @ ''}''"

definition sendSimple :: "env \<Rightarrow> msg_type \<Rightarrow> cast_ns \<Rightarrow> world \<Rightarrow> (bool \<times> world) option" where
  "sendSimple E type urn w =
     (if urn = NamespacesCount then Some (False, w)
      else if type = SimpleMessageCount then Some (False, w)
      else if type = MsgGetStatus \<and> mediaSession w \<noteq> [] then do {
        (rid, w) \<leftarrow> next_request_id w;
        sendMessage E (ns_strings NsMedia)
          (get_status_text rid (mediaSession w)) w
      }
      else do {
        let wasVerbose = s_verbose w;
        let w = (if type = MsgPing \<or> type = MsgPong then w\<lparr>s_verbose := False\<rparr> else w);
        (ret, w) \<leftarrow> sendMessage E (ns_strings urn) (simple_msgs type) w;
        Some (ret, w\<lparr>s_verbose := wasVerbose\<rparr>)
      })"

definition no_session :: string where
  "no_session = ''Can'' @ [CHR 0x27] @ ''t seek without media session''"

definition seek :: "env \<Rightarrow> dbl \<Rightarrow> world \<Rightarrow> (bool \<times> world) option" where
  "seek E position w =
     (if mediaSession w = [] then Some (False, cerr no_session w)
      else do {
        (rid, w) \<leftarrow> next_request_id w;
        sendMessage E (ns_strings NsMedia)
          (seek_text rid (mediaSession w) position) w
      })"

definition sendSimpleMedia :: "env \<Rightarrow> string \<Rightarrow> world \<Rightarrow> (bool \<times> world) option" where
  "sendSimpleMedia E command w =
     (if mediaSession w = [] then Some (False, cerr no_session w)
      else do {
        (rid, w) \<leftarrow> next_request_id w;
        sendMessage E (ns_strings NsMedia)
          (command_text rid (mediaSession w) command) w
      })"

definition loadMedia :: "env \<Rightarrow> string \<Rightarrow> dbl \<Rightarrow> world \<Rightarrow> (bool \<times> world) option" where
  "loadMedia E video position w =
     (if video = [] then Some (False, puts (''Can'' @ [CHR 0x27] @ ''t load empty video'') w)
      else do {
        (rid, w) \<leftarrow> next_request_id w;
        sendMessage E (ns_strings NsMedia)
          (load_text rid video position) w
      })"

subsection \<open>What is sent\<close>

definition frame :: "target \<Rightarrow> cast_message \<Rightarrow> byte list" where
  "frame tg m = rev (le_bytes (of_nat (cast_size m) :: u32)) @ cast_bytes tg m"

lemma store_htonl: "store_int tg (htonl tg v) = rev (le_bytes v)"
  by (simp add: store_int_def htonl_def le_bytes_bswap)

lemma sendMessage_cases:
  assumes "sendMessage E ns m w = Some (ok, w')"
  shows "core w' = core w"
    and "if cast_writable (message_for (dest w) ns m)
      then sends w' = sends w @ [frame (env_target E) (message_for (dest w) ns m)]
      else \<not> ok \<and> sends w' = sends w"
proof -
  let ?m = "message_for (dest w) ns m"
  have d: "dest (when_verbose (puts s) w) = dest w" for s by (simp add: puts_def emit_def)
  have "core w' = core w \<and> (if cast_writable ?m then sends w' = sends w @ [frame (env_target E) ?m]
      else \<not> ok \<and> sends w' = sends w)"
  proof (cases "cast_writable ?m")
    case True
    with assms show ?thesis
      by (auto simp: sendMessage_def Let_def d cast_serialize_eq store_htonl frame_def puts_def
          split: if_splits dest!: conn_write_effect)
  next
    case False
    obtain st where "cast_serialize (env_target E) ?m
        (store_int (env_target E) (htonl (env_target E) (of_nat (cast_size ?m)))) = (False, st)"
      using False cast_serialize_result by (metis prod.collapse)
    with assms False show ?thesis
      by (auto simp: sendMessage_def Let_def d puts_def split: if_splits)
  qed
  then show "core w' = core w" and "if cast_writable ?m
      then sends w' = sends w @ [frame (env_target E) ?m] else \<not> ok \<and> sends w' = sends w"
    by simp_all
qed

lemma next_request_id_Some:
  "next_request_id w = Some (rid, w') \<longleftrightarrow>
     int_ok (s_requestId w + 1) \<and> rid = dec_int (s_requestId w) \<and> w' = w\<lparr>s_requestId := s_requestId w + 1\<rparr>"
  by (auto simp: next_request_id_def)

lemma sendMessage_sends:
  "sendMessage E ns m w = Some (ok, w') \<Longrightarrow> sends w' \<noteq> sends w \<Longrightarrow>
     sends w' = sends w @ [frame (env_target E) (message_for (dest w) ns m)]"
  using sendMessage_cases(2) [of E ns m w ok w'] by (auto split: if_splits)

lemma seek_sends:
  assumes "seek E position w = Some (ok, w')" and "sends w' \<noteq> sends w"
  shows "sends w' = sends w @ [frame (env_target E) (message_for (dest w) (ns_strings NsMedia)
      (seek_text (dec_int (s_requestId w)) (mediaSession w) position))]"
  using assms
  by (auto simp: seek_def next_request_id_Some Option.bind_eq_Some_conv simp del: ns_strings.simps
      split: if_splits dest!: sendMessage_sends)

subsection \<open>What all messages have in common\<close>

text \<open>
  The contract of an operation that says something to the device: it may count a request, it sends at
  most one buffer, and leaves the rest of the state alone. The playback logic relies on no more.
\<close>

locale speaker =
  fixes say :: "world \<Rightarrow> (bool \<times> world) option"
  assumes changes_counter: "say w = Some (ok, w') \<Longrightarrow> core w' = (core w)\<lparr>s_requestId := s_requestId w'\<rparr>"
    and counts: "say w = Some (ok, w') \<Longrightarrow> s_requestId w' \<in> {s_requestId w, s_requestId w + 1}"
    and at_most_one: "say w = Some (ok, w') \<Longrightarrow> sends w' = sends w \<or> (\<exists>f. sends w' = sends w @ [f])"
begin

lemma keeps:
  assumes "say w = Some (ok, w')"
  shows "s_verbose w' = s_verbose w" "s_adblock w' = s_adblock w" "s_youtube w' = s_youtube w"
    "currentSegments w' = currentSegments w" "nextSegmentStart w' = nextSegmentStart w"
    "currentVideo w' = currentVideo w" "s_currentPosition w' = s_currentPosition w"
    "currentDuration w' = currentDuration w" "s_lastPositionFetched w' = s_lastPositionFetched w"
    "currentlyPlaying w' = currentlyPlaying w" "s_lastSeek w' = s_lastSeek w"
    "s_lastPing w' = s_lastPing w" "s_currentStatus w' = s_currentStatus w"
    "s_categories w' = s_categories w" "dest w' = dest w" "mediaSession w' = mediaSession w"
    "spinnerPos w' = spinnerPos w" "ssl w' = ssl w"
  by (simp_all only: core_sel(1-18) [symmetric, of w'] changes_counter [OF assms]) (simp_all add: core_sel)

end

lemma sendMessage_speaks:
  assumes "sendMessage E ns m w = Some (ok, w')"
  shows "core w' = core w \<and> s_requestId w' = s_requestId w \<and>
    (sends w' = sends w \<or> (\<exists>f. sends w' = sends w @ [f]))"
  using sendMessage_cases [OF assms] core_eqD(17) [OF sendMessage_cases(1) [OF assms]]
  by (auto split: if_splits)

lemma media_speaks:
  assumes "sendSimpleMedia E command w = Some (ok, w')"
  shows "core w' = (core w)\<lparr>s_requestId := s_requestId w'\<rparr> \<and>
    s_requestId w' \<in> {s_requestId w, s_requestId w + 1} \<and>
    (sends w' = sends w \<or> (\<exists>f. sends w' = sends w @ [f]))"
  using assms
  by (auto simp: sendSimpleMedia_def next_request_id_Some Option.bind_eq_Some_conv
      split: if_splits dest!: sendMessage_speaks)

lemma seek_speaks:
  assumes "seek E position w = Some (ok, w')"
  shows "core w' = (core w)\<lparr>s_requestId := s_requestId w'\<rparr> \<and>
    s_requestId w' \<in> {s_requestId w, s_requestId w + 1} \<and>
    (sends w' = sends w \<or> (\<exists>f. sends w' = sends w @ [f]))"
  using assms
  by (auto simp: seek_def next_request_id_Some Option.bind_eq_Some_conv
      split: if_splits dest!: sendMessage_speaks)

lemma load_speaks:
  assumes "loadMedia E video position w = Some (ok, w')"
  shows "core w' = (core w)\<lparr>s_requestId := s_requestId w'\<rparr> \<and>
    s_requestId w' \<in> {s_requestId w, s_requestId w + 1} \<and>
    (sends w' = sends w \<or> (\<exists>f. sends w' = sends w @ [f]))"
  using assms
  by (auto simp: loadMedia_def next_request_id_Some Option.bind_eq_Some_conv
      split: if_splits dest!: sendMessage_speaks)

lemma simple_speaks:
  assumes "sendSimple E type urn w = Some (ok, w')"
  shows "core w' = (core w)\<lparr>s_requestId := s_requestId w'\<rparr> \<and>
    s_requestId w' \<in> {s_requestId w, s_requestId w + 1} \<and>
    (sends w' = sends w \<or> (\<exists>f. sends w' = sends w @ [f]))"
  using assms
  by (auto simp: sendSimple_def next_request_id_Some Option.bind_eq_Some_conv Let_def
      split: if_splits dest!: sendMessage_speaks)

interpretation media: speaker "sendSimpleMedia E command" for E command
  by unfold_locales (use media_speaks in blast)+

interpretation seeking: speaker "seek E position" for E position
  by unfold_locales (use seek_speaks in blast)+

interpretation loading: speaker "loadMedia E video position" for E video position
  by unfold_locales (use load_speaks in blast)+

interpretation simple: speaker "sendSimple E type urn" for E type urn
  by unfold_locales (use simple_speaks in blast)+

lemma cast_clean_message_for:
  assumes "cast_clean (message_for to ns m)"
  shows "as_read_back (message_for to ns m) = message_for to ns m"
  by (simp add: as_read_back_def message_for_def cast_reset_def)

lemma sendMessage_writable:
  assumes "EXT_SSL_write (ssl w) \<noteq> None" and "cast_writable (message_for (dest w) ns m)"
  shows "\<exists>w'. sendMessage E ns m w =
      Some (env_int E (tick w) = int (length (frame (env_target E) (message_for (dest w) ns m))), w') \<and>
    sends w' = sends w @ [frame (env_target E) (message_for (dest w) ns m)] \<and> core w' = core w"
proof -
  let ?m = "message_for (dest w) ns m" and ?tg = "env_target E"
  define f where "f = frame ?tg ?m"
  define v where "v = when_verbose (puts (''Sending to '' @ [CHR 0x27] @ dest w @ [CHR 0x27] @ '': '' @
    [CHR 0x27] @ ns @ '': '' @ [CHR 0x27] @ m @ [CHR 0x27])) w"
  have v: "dest v = dest w" "ssl v = ssl w" "tick v = tick w"
    by (simp_all add: v_def) (simp add: puts_def emit_def)
  obtain st where ser: "cast_serialize ?tg ?m (store_int ?tg (htonl ?tg (of_nat (cast_size ?m)))) = (True, st)"
    and ob: "obuf st = f"
    using cast_serialize_eq [OF assms(2)] by (simp add: store_htonl frame_def f_def)
  have "\<exists>w'. conn_write E (obuf st) v = Some (env_int E (tick v) = int (length (obuf st)), w')"
    by (rule conn_write_defined) (use assms(1) v in simp)
  moreover have "sendMessage E ns m w = conn_write E (obuf st) v"
    using ser v(1) by (simp add: sendMessage_def Let_def v_def [symmetric])
  ultimately obtain w' where w': "sendMessage E ns m w = Some (env_int E (tick w) = int (length f), w')"
    using v(3) ob by auto
  then show ?thesis
    using sendMessage_cases [OF w'] assms(2) by (auto simp: f_def)
qed

text \<open>A text of ASCII characters other than NUL passes every test on the way out.\<close>

definition ascii :: "string \<Rightarrow> bool" where
  "ascii s \<longleftrightarrow> list_all (\<lambda>c. 0 < (of_char c :: nat) \<and> (of_char c :: nat) < 128) s"

lemma unat_byte_of_char: "unat (byte_of_char c) = of_char c"
  using of_char_less [of c] by (simp add: byte_of_char_def of_char_byte unat_of_nat)

lemma ascii_clean: "ascii s \<Longrightarrow> c_str s = bytes_of s \<and> isutf8 (bytes_of s)"
proof -
  assume "ascii s"
  then have "list_all (\<lambda>b. b \<noteq> 0 \<and> b < 0x80) (bytes_of s)"
    by (auto simp: ascii_def list_all_iff word_less_nat_alt unat_byte_of_char unat_eq_0 [symmetric])
  then show ?thesis
    unfolding c_str_def by (auto simp: list_all_iff takeWhile_eq_all_conv intro!: isutf8_ascii)
qed

lemma cast_clean_ascii:
  assumes "ascii (source_id m)" and "ascii (destination_id m)" and "ascii (namespace m)"
    and "ascii (payload_utf8 m)"
  shows "cast_clean m"
  using assms by (simp add: cast_clean_def ascii_clean)

subsection \<open>Texts are ASCII\<close>

lemma ascii_simps [simp]:
  "ascii []" "ascii (c # s) \<longleftrightarrow> 0 < (of_char c :: nat) \<and> (of_char c :: nat) < 128 \<and> ascii s"
  "ascii (s @ t) \<longleftrightarrow> ascii s \<and> ascii t" "ascii (replicate n c) \<longleftrightarrow> n = 0 \<or> ascii [c]"
  by (auto simp: ascii_def list_all_iff)

lemma ascii_digits: "list_all is_digit s \<Longrightarrow> ascii s"
  by (auto simp: ascii_def is_digit_def list_all_iff)

lemma ascii_quoted [simp]: "ascii (quoted s) \<longleftrightarrow> ascii s"
  by (simp add: quoted_def)

lemma ascii_dec [simp]: "ascii (dec n)" "ascii (dec_int i)" "ascii (pad k n)" "ascii (fixed_point k n)"
  using ascii_digits [OF is_digit_dec] ascii_digits [OF list_all_pad]
  by (simp_all add: dec_int_def fixed_point_def)

lemma ascii_fmt_f [simp]: "ascii (fmt_f x)"
  by (cases x) simp_all

lemma ascii_simple_msgs [simp]: "ascii (simple_msgs t)"
  by (cases t) simp_all

lemma ascii_ns_strings [simp]: "ascii (ns_strings n)"
  by (cases n) simp_all

lemma ascii_texts [simp]:
  "ascii session \<Longrightarrow> ascii rid \<Longrightarrow> ascii (get_status_text rid session)"
  "ascii session \<Longrightarrow> ascii rid \<Longrightarrow> ascii (seek_text rid session position)"
  "ascii session \<Longrightarrow> ascii rid \<Longrightarrow> ascii command \<Longrightarrow> ascii (command_text rid session command)"
  "ascii video \<Longrightarrow> ascii rid \<Longrightarrow> ascii (load_text rid video position)"
  by (simp_all add: get_status_text_def seek_text_def command_text_def load_text_def)

lemma cast_clean_message:
  "ascii to \<Longrightarrow> ascii ns \<Longrightarrow> ascii text \<Longrightarrow> cast_clean (message_for to ns text)"
  by (rule cast_clean_ascii) (simp_all add: message_for_def cast_reset_def)

lemma seek_defined:
  assumes "EXT_SSL_write (ssl w) \<noteq> None" and "mediaSession w \<noteq> []" and "int_ok (s_requestId w + 1)"
    and "ascii (mediaSession w)" and "ascii (dest w)"
  shows "\<exists>ok w'. seek E position w = Some (ok, w') \<and> sends w' \<noteq> sends w"
proof -
  let ?v = "w\<lparr>s_requestId := s_requestId w + 1\<rparr>"
  let ?m = "message_for (dest w) (ns_strings NsMedia) (seek_text (dec_int (s_requestId w)) (mediaSession w) position)"
  have "cast_writable ?m"
    by (rule cast_clean_writable, rule cast_clean_message) (use assms in simp_all)
  then obtain w' where "sendMessage E (ns_strings NsMedia) (seek_text (dec_int (s_requestId w)) (mediaSession w) position) ?v =
      Some (env_int E (tick w) = int (length (frame (env_target E) ?m)), w')"
    "sends w' = sends w @ [frame (env_target E) ?m]"
    using sendMessage_writable [of ?v "ns_strings NsMedia"] assms(1) by auto
  then show ?thesis using assms(2,3) by (auto simp: seek_def next_request_id_def)
qed

subsection \<open>Properties\<close>

text \<open>C5. One message, one frame. When the destination, namespace and text pass the UTF-8 test and hold no
  NUL, \<open>sendMessage\<close> hands the SSL library exactly one buffer: the size as a 32-bit big-endian number,
  whatever the host, then that many bytes, which parse back to the message meant, from \<open>sender-0\<close> to the
  destination or \<open>receiver-0\<close>. It returns whether the library took all of it, and changes nothing else.\<close>

theorem sendMessage_frames:
  assumes "EXT_SSL_write (ssl w) \<noteq> None"
    and "cast_clean (message_for (dest w) ns m)" and "cast_size (message_for (dest w) ns m) < 2 ^ 31"
  shows "\<exists>w' body. sendMessage E ns m w =
      Some (env_int E (tick w) = int (4 + length body), w') \<and>
    sends w' = sends w @ [rev (le_bytes (of_nat (length body) :: u32)) @ body] \<and>
    cast_parse tg body = Got (message_for (dest w) ns m) \<and> core w' = core w"
proof -
  let ?m = "message_for (dest w) ns m" and ?tg = "env_target E"
  have body: "length (cast_bytes ?tg ?m) = cast_size ?m"
    using assms(2) by (rule length_cast_bytes)
  have "cast_parse tg (cast_bytes ?tg ?m) = Got ?m"
    using cast_parse_bytes [OF assms(2), of ?tg tg] assms(3) body cast_clean_message_for [OF assms(2)] by simp
  moreover have "length (frame ?tg ?m) = 4 + length (cast_bytes ?tg ?m)"
    "frame ?tg ?m = rev (le_bytes (of_nat (length (cast_bytes ?tg ?m)) :: u32)) @ cast_bytes ?tg ?m"
    by (simp_all add: frame_def body)
  ultimately show ?thesis
    using sendMessage_writable [OF assms(1) cast_clean_writable [OF assms(2)], of E] by metis
qed

lemma clean_ping: "cast_clean (message_for [] (ns_strings NsHeartbeat) (simple_msgs MsgPing))"
  by (rule cast_clean_ascii) (simp_all add: message_for_def cast_reset_def ascii_def quoted_def)

lemma size_ping: "cast_size (message_for [] (ns_strings NsHeartbeat) (simple_msgs MsgPing)) = 85"
  by (simp add: cast_size_simps message_for_def cast_reset_def quoted_def)

theorem sendMessage_frames_witness:
  "\<exists>w' body. sendMessage (still_env 0 89) (ns_strings NsHeartbeat) (simple_msgs MsgPing) linked_world =
      Some (length body = 85, w') \<and>
    sends w' = [rev (le_bytes (of_nat (length body) :: u32)) @ body]"
proof -
  have 1: "EXT_SSL_write (ssl linked_world) \<noteq> None" "dest linked_world = []" "tick linked_world = 0"
    "sends linked_world = []"
    by (simp_all add: linked_world_def linked_def sends_def)
  show ?thesis
    using sendMessage_frames [of linked_world "ns_strings NsHeartbeat" "simple_msgs MsgPing" "still_env 0 89" tg0]
      clean_ping size_ping
    by (auto simp: 1 still_env_def simp del: ns_strings.simps simple_msgs.simps)
qed

text \<open>C32. A session id of the device with a character outside ASCII that the UTF-8 test refuses, such as a
  two-byte one, breaks the framing: every message sent to it goes out without its destination, while the
  number in front still announces it, and the device takes the start of the next message for its end.\<close>

theorem sendMessage_short_frame:
  assumes "EXT_SSL_write (ssl w) \<noteq> None" and "\<not> isutf8 (c_str (dest w))"
    and "cast_clean ((message_for (dest w) ns m)\<lparr>destination_id := []\<rparr>)"
    and "cast_size (message_for (dest w) ns m) < 2 ^ 31"
  shows "\<exists>w' n body. sendMessage E ns m w = Some (env_int E (tick w) = int (4 + length body), w') \<and>
    sends w' = sends w @ [rev (le_bytes (of_nat n :: u32)) @ body] \<and> length body < n \<and> n < 2 ^ 31 \<and>
    cast_parse tg body = Got ((message_for (dest w) ns m)\<lparr>destination_id := []\<rparr>)"
proof -
  let ?m = "message_for (dest w) ns m" and ?tg = "env_target E"
  have dest: "dest w \<noteq> []" using assms(2) by (auto simp: c_str_def isutf8_def)
  then have d: "destination_id ?m = dest w" by (simp add: message_for_def)
  have wr: "cast_writable ?m"
    using assms(3) by (simp add: cast_clean_def cast_writable_def message_for_def)
  let ?m' = "?m\<lparr>destination_id := []\<rparr>"
  have bytes: "cast_bytes ?tg ?m = cast_bytes ?tg ?m'"
    by (rule cast_bytes_drop_destination) (use assms(2) d in simp)
  have "c_str (destination_id ?m) \<noteq> []" using assms(2) d by (auto simp: isutf8_def)
  then have less: "length (cast_bytes ?tg ?m) < cast_size ?m"
    unfolding bytes length_cast_bytes [OF assms(3)] by (rule cast_size_drop_destination)
  have "as_read_back ?m' = ?m'" by (simp add: as_read_back_def message_for_def cast_reset_def)
  then have "cast_parse tg (cast_bytes ?tg ?m) = Got ?m'"
    using cast_parse_bytes [OF assms(3), of ?tg tg] less assms(4) bytes by simp
  moreover have "length (frame ?tg ?m) = 4 + length (cast_bytes ?tg ?m)"
    "frame ?tg ?m = rev (le_bytes (of_nat (cast_size ?m) :: u32)) @ cast_bytes ?tg ?m"
    by (simp_all add: frame_def)
  ultimately show ?thesis
    using sendMessage_writable [OF assms(1) wr, of E] less assms(4) by metis
qed

theorem sendMessage_short_frame_witness:
  "\<exists>w' n body. sendMessage (still_env 0 89) (ns_strings NsHeartbeat) (simple_msgs MsgPing)
      (linked_world\<lparr>dest := string_of [0xC3, 0xA9]\<rparr>) = Some (length body = 85, w') \<and>
    sends w' = [rev (le_bytes (of_nat n :: u32)) @ body] \<and> length body < n"
proof -
  let ?w = "linked_world\<lparr>dest := string_of [0xC3, 0xA9]\<rparr>"
  have 1: "EXT_SSL_write (ssl ?w) \<noteq> None" "dest ?w = string_of [0xC3, 0xA9]" "tick ?w = 0" "sends ?w = []"
    by (simp_all add: linked_world_def linked_def sends_def)
  have 2: "\<not> isutf8 (c_str (dest ?w))" by (simp add: c_str_def isutf8_def)
  have 3: "cast_clean ((message_for (dest ?w) (ns_strings NsHeartbeat) (simple_msgs MsgPing))\<lparr>destination_id := []\<rparr>)"
    by (rule cast_clean_ascii) (simp_all add: message_for_def cast_reset_def ascii_def quoted_def)
  have 4: "cast_size (message_for (dest ?w) (ns_strings NsHeartbeat) (simple_msgs MsgPing)) = 77"
    by (simp add: cast_size_simps message_for_def cast_reset_def quoted_def) (simp flip: byte_of_char_def)
  have "\<exists>w' n body. sendMessage (still_env 0 89) (ns_strings NsHeartbeat) (simple_msgs MsgPing) ?w =
      Some (env_int (still_env 0 89) (tick ?w) = int (4 + length body), w') \<and>
    sends w' = sends ?w @ [rev (le_bytes (of_nat n :: u32)) @ body] \<and> length body < n \<and> n < 2 ^ 31 \<and>
    cast_parse tg0 body = Got ((message_for (dest ?w) (ns_strings NsHeartbeat) (simple_msgs MsgPing))\<lparr>destination_id := []\<rparr>)"
    by (rule sendMessage_short_frame [OF 1(1) 2 3]) (simp only: 4, simp)
  then show ?thesis unfolding 1 by (auto simp: still_env_def simp del: ns_strings.simps simple_msgs.simps)
qed

end
