(* ===== verification/Sponsor.thy ===== *)
theory Sponsor
  imports Connection Double_Facts "HOL-Library.Sublist"
begin

text \<open>
  \<open>extractNumber\<close> of \<open>util.h\<close> and \<open>sponsor.h\<close>: numbers out of texts, and the segments to skip of a
  video, downloaded from the sponsor database.

  Both number readers look at \<open>errno\<close> after \<open>strtod\<close>, which only ever sets it; only \<open>splitToDouble\<close>
  clears it again.
\<close>

subsection \<open>strtod consumes the text\<close>

lemma suffix_dropWhile' [simp]: "suffix (dropWhile P s) s"
  by (rule suffix_dropWhile)

lemma suffix_trans_tl: "suffix r (tl s) \<Longrightarrow> suffix r s"
  by (meson suffix_tl suffix_order.trans)

lemma scan_digits_suffix: "scan_digits dig s = Some (ip, fp, r) \<Longrightarrow> suffix r s"
proof -
  assume *: "scan_digits dig s = Some (ip, fp, r)"
  let ?s1 = "dropWhile dig s"
  have "r = dropWhile dig (tl ?s1) \<or> r = ?s1"
    using * by (auto simp: scan_digits_def Let_def split: if_splits)
  moreover have "suffix (dropWhile dig (tl ?s1)) (tl ?s1)" by simp
  then have "suffix (dropWhile dig (tl ?s1)) ?s1" by (rule suffix_trans_tl)
  ultimately show ?thesis by (metis suffix_dropWhile suffix_order.trans)
qed

lemma scan_exponent_suffix: "scan_exponent e s = (n, r) \<Longrightarrow> suffix r s"
proof -
  assume *: "scan_exponent e s = (n, r)"
  have "r = s \<or> suffix r (tl s)"
    using * by (auto simp: scan_exponent_def Let_def suffix_trans_tl split: if_splits)
  then show ?thesis by (auto intro: suffix_trans_tl)
qed

lemma scan_number_suffix: "scan_number ng s = Some (x, r, e) \<Longrightarrow> suffix r s"
  by (auto simp: scan_number_def split: option.splits prod.splits if_splits
      dest!: scan_digits_suffix scan_exponent_suffix)
    (meson suffix_drop suffix_order.trans)+

lemma after_nan_suffix: "suffix (after_nan s) s"
proof -
  have "suffix (tl (dropWhile P (tl s))) s" for P
    by (meson suffix_dropWhile suffix_order.trans suffix_tl)
  then show ?thesis by (simp add: after_nan_def Let_def)
qed

lemma strtod_suffix: "strtod s = (x, r, e) \<Longrightarrow> suffix r s"
proof -
  assume *: "strtod s = (x, r, e)"
  let ?s1 = "dropWhile is_blank s"
  let ?s2 = "if ?s1 \<noteq> [] \<and> (hd ?s1 = CHR ''-'' \<or> hd ?s1 = CHR ''+'') then tl ?s1 else ?s1"
  have s2: "suffix ?s2 s" by (auto intro: suffix_order.trans [OF suffix_tl])
  have "r = s \<or> suffix r ?s2"
    using * unfolding strtod_def Let_def
    by (auto split: if_splits option.splits dest: scan_number_suffix
        intro: suffix_drop suffix_order.trans [OF after_nan_suffix])
  with s2 show ?thesis by (auto intro: suffix_order.trans)
qed

lemma strtod_shorter: "strtod s = (x, r, e) \<Longrightarrow> r \<noteq> s \<Longrightarrow> length r < length s"
  using strtod_suffix by (metis suffix_length_less suffix_order.le_neq_trans)

subsection \<open>Numbers\<close>

text \<open>\<open>None\<close> in place of the number: \<open>extractNumber\<close> returned \<open>false\<close>.\<close>

definition extractNumber :: "string \<Rightarrow> string \<Rightarrow> world \<Rightarrow> (dbl option \<times> world) option" where
  "extractNumber regex payload w = do {
     numberString \<leftarrow> regexExtract regex payload;
     if numberString = [] then Some (None, w)
     else do {
       let startptr = until_nul numberString;
       let (converted, endptr, erange) = strtod startptr;
       let w = (if erange then w\<lparr>errno := ERANGE\<rparr> else w);
       Some (if endptr = startptr \<or> errno w = ERANGE \<or> \<not> finite_dbl converted then None
             else Some converted, w)
     }
   }"

function splitToDouble_loop :: "string \<Rightarrow> dbl list \<Rightarrow> world \<Rightarrow> dbl list \<times> world" where
  "splitToDouble_loop begin ret w =
     (case strtod begin of (timestamp, end, erange) \<Rightarrow>
        let w = (if erange then w\<lparr>errno := ERANGE\<rparr> else w)
        in if begin = end then (ret, w)
           else if errno w = ERANGE then
             ([], (out (''range error, got '' @ fmt_g timestamp @ [CHR 0x0A]) w)\<lparr>errno := 0\<rparr>)
           else splitToDouble_loop end (ret @ [timestamp]) w)"
  by pat_completeness auto
termination
  by (relation "measure (\<lambda>(begin, ret, w). length begin)") (auto dest: strtod_shorter [OF sym])

declare splitToDouble_loop.simps [simp del]

definition splitToDouble :: "string \<Rightarrow> world \<Rightarrow> dbl list \<times> world" where
  "splitToDouble string w =
     splitToDouble_loop (until_nul (map (\<lambda>c. if c = CHR '','' then CHR '' '' else c) string)) [] w"

subsection \<open>Segments\<close>

definition segments_pattern :: string where
  "segments_pattern =
     quoted ''segment'' @ CHR 0x5C # ''s*:'' @ CHR 0x5C # ''[([^'' @ CHR 0x5C # '']]+)'' @ CHR 0x5C # '']''"

fun collect_segments :: "string list \<Rightarrow> segment list \<Rightarrow> world \<Rightarrow> segment list option \<times> world" where
  "collect_segments [] segments w = (Some segments, w)"
| "collect_segments (segmentsArray # rest) segments w =
     (let (numbers, w) = splitToDouble segmentsArray w
      in if length numbers \<noteq> 2
         then (None, puts (''Invalid segment '' @ segmentsArray) w)
         else let w = when_verbose (puts (''Got segment '' @ fmt_g (numbers ! 0) @ '' -> '' @
                        fmt_g (numbers ! 1))) w
              in collect_segments rest
                   (segments @ [\<lparr>seg_begin = numbers ! 0, seg_end = numbers ! 1\<rparr>]) w)"

definition segments_query :: "string \<Rightarrow> string list \<Rightarrow> string" where
  "segments_query videoId categories =
     ''?videoID='' @ videoId @ concat (map (\<lambda>category. ''&category='' @ category) categories)"

definition group_text :: "string option \<Rightarrow> string" where
  "group_text cap = (case cap of None \<Rightarrow> [] | Some v \<Rightarrow> v)"

definition downloadSegments :: "env \<Rightarrow> string \<Rightarrow> world \<Rightarrow> (segment list \<times> world) option" where
  "downloadSegments E videoId w =
     (if videoId = [] then Some ([], puts ''Got empty videoId'' w)
      else do {
        (json, w) \<leftarrow> downloadFile E ''sponsor.ajay.app'' 443
                      (''/api/skipSegments'' @ segments_query videoId (s_categories w)) w;
        if json = [] then Some ([], puts ''Failed to download segments to skip'' w)
        else do {
          its \<leftarrow> re_compile segments_pattern;
          (case collect_segments (map group_text (re_all its json)) [] w of
             (None, w) \<Rightarrow> Some ([], w)
           | (Some segments, w) \<Rightarrow>
               Some (segments, puts ('' - Got '' @ dec (length segments) @ '' skip segments for '' @ videoId) w))
        }
      })"

subsection \<open>One number too large\<close>

lemma extractNumber_stuck:
  assumes "errno w = ERANGE" and "extractNumber regex payload w = Some (r, w')"
  shows "r = None \<and> errno w' = ERANGE"
  using assms
  by (auto simp: extractNumber_def Option.bind_eq_Some_conv Let_def split: if_splits prod.splits)

lemma until_nul_digits: "list_all is_digit ds \<Longrightarrow> until_nul ds = ds"
  by (auto simp: until_nul_def list_all_iff is_digit_def takeWhile_eq_all_conv)

lemma class_has_digits: "class_has digits c \<longleftrightarrow> is_digit c"
  by (auto simp: digits_def is_digit_def in_range_def)

lemma class_has_digits_dot: "class_has digits_dot c \<longleftrightarrow> is_digit c \<or> c = CHR ''.''"
proof -
  have "of_char c = (46 :: nat) \<longleftrightarrow> c = CHR ''.''"
  proof -
    have "of_char CHR ''.'' = (46 :: nat)" by simp
    then show ?thesis by (metis char_of_char)
  qed
  then show ?thesis by (auto simp: digits_dot_def is_digit_def in_range_def)
qed

lemma quoted_first: "\<not> sublist (quoted key) (butlast (quoted key))"
  using sublist_length_le [of "quoted key" "butlast (quoted key)"] by (auto simp: quoted_def)

lemma regexExtract_first_number:
  assumes "plain key" and "list_all (class_has digits_dot) v" and "v \<noteq> []" and "post = [] \<or> \<not> class_has digits_dot (hd post)"
    and "\<not> sublist (quoted key) (pre @ butlast (quoted key))"
  shows "regexExtract (bare_value key ''[0-9.]'') (pre @ quoted key @ CHR '':'' # v @ post) = Some v"
proof -
  have "\<not> is_space (hd v)"
    using assms(2,3) by (cases v) (auto simp: class_has_digits_dot is_space_def is_digit_def)
  then have "extract_group (bare_value_items key digits_dot) (pre @ quoted key @ [] @ CHR '':'' # [] @ v @ post) = v"
    using assms by (intro extract_bare_value) (simp_all add: spaces_def)
  then show ?thesis
    using re_compile_bare_value [OF assms(1) bracket_texts(4)] by (simp add: regexExtract_def)
qed

lemma nearest_overflow: "pow2 1024 \<le> a \<Longrightarrow> nearest False a = (PInf, True)"
proof -
  assume *: "pow2 1024 \<le> a"
  then have "0 < a" using pow2_pos by (rule less_le_trans [rotated])
  then show ?thesis using rnd_overflow [OF *] by (simp add: nearest_def)
qed

subsection \<open>Lists of numbers\<close>

text \<open>The numbers of a list of decimals, each with a blank in front.\<close>

abbreviation in_range_text :: "string \<Rightarrow> bool" where
  "in_range_text s \<equiv> decimal s \<and> \<not> snd (snd (strtod s))"

lemma strtod_token:
  assumes "in_range_text t" and "ends_number rest"
  shows "strtod (t @ rest) = (fst (strtod t), rest, False)"
    and "strtod (CHR '' '' # t @ rest) = (fst (strtod t), rest, False)"
  using strtod_decimal [of t rest] strtod_blank [of "t @ rest" "fst (strtod t)" rest False] assms by auto

lemma ends_number_blank: "ends_number (concat (map (\<lambda>t. CHR '' '' # t) ts))"
  by (cases ts) (auto simp: ends_number_def is_digit_def lower_def)

lemma splitToDouble_loop_tokens:
  "list_all in_range_text ts \<Longrightarrow> errno w \<noteq> ERANGE \<Longrightarrow>
     splitToDouble_loop (concat (map (\<lambda>t. CHR '' '' # t) ts)) ret w = (ret @ map (fst \<circ> strtod) ts, w)"
proof (induction ts arbitrary: ret)
  case Nil
  then show ?case by (simp add: splitToDouble_loop.simps strtod_def scan_number_def scan_digits_def begins_ci_def)
next
  case (Cons t ts)
  have ends: "ends_number (concat (map (\<lambda>t. CHR '' '' # t) ts))" by (rule ends_number_blank)
  show ?case
    using Cons strtod_token(2) [OF _ ends, of t]
    by (subst splitToDouble_loop.simps) (auto simp: Let_def)
qed

lemma blank_text:
  assumes "list_all decimal ts" and "ts \<noteq> []"
  shows "until_nul (map (\<lambda>c. if c = CHR '','' then CHR '' '' else c) (join CHR '','' ts)) =
    hd ts @ concat (map (\<lambda>t. CHR '' '' # t) (tl ts))"
proof -
  have no_comma: "CHR '','' \<notin> set t" if "decimal t" for t
    by (rule decimal_has_no [OF that]) (simp_all add: is_digit_def)
  have t: "map (\<lambda>c. if c = CHR '','' then CHR '' '' else c) t = t" if "decimal t" for t
    by (rule map_idI) (use no_comma [OF that] in \<open>auto split: if_split\<close>)
  let ?f = "map (\<lambda>c. if c = CHR '','' then CHR '' '' else c)"
  have joined: "?f (join CHR '','' (t # us)) = t @ concat (map (\<lambda>t. CHR '' '' # t) us)"
    if "decimal t" "list_all decimal us" for t us
    using that
  proof (induction us arbitrary: t)
    case (Cons u us)
    then have "?f (join CHR '','' (u # us)) = u @ concat (map (\<lambda>t. CHR '' '' # t) us)" "?f t = t"
      using t by simp_all
    then show ?case by simp
  qed (use t in simp)
  let ?t = "hd ts @ concat (map (\<lambda>t. CHR '' '' # t) (tl ts))"
  have eq: "?f (join CHR '','' ts) = hd ts @ concat (map (\<lambda>t. CHR '' '' # t) (tl ts))"
    using joined [of "hd ts" "tl ts"] assms by (cases ts) simp_all
  have "CHR 0x00 \<notin> set ?t"
  proof -
    have "CHR 0x00 \<notin> set t" if "t \<in> set ts" for t
      using decimal_has_no [of t "CHR 0x00"] assms(1) that by (simp add: list_all_iff is_digit_def)
    then show ?thesis using assms(2) by (cases ts) auto
  qed
  then have "\<forall>c \<in> set ?t. c \<noteq> CHR 0x00" by blast
  then show ?thesis unfolding until_nul_def eq by (rule takeWhile_eq_all_conv [THEN iffD2])
qed

lemma splitToDouble_decimals:
  assumes "list_all in_range_text ts" and "ts \<noteq> []" and "errno w \<noteq> ERANGE"
  shows "splitToDouble (join CHR '','' ts) w = (map (fst \<circ> strtod) ts, w)"
proof -
  obtain t us where ts: "ts = t # us" using assms(2) by (cases ts) auto
  have "list_all decimal ts" using assms(1) by (auto simp: list_all_iff)
  then have "splitToDouble (join CHR '','' ts) w =
      splitToDouble_loop (t @ concat (map (\<lambda>t. CHR '' '' # t) us)) [] w"
    using blank_text assms(2) by (simp add: splitToDouble_def ts)
  also have "\<dots> = splitToDouble_loop (concat (map (\<lambda>t. CHR '' '' # t) us)) [fst (strtod t)] w"
    using strtod_token(1) [OF _ ends_number_blank, of t us] assms(1,3) ts
    by (subst splitToDouble_loop.simps) (auto simp: Let_def)
  finally show ?thesis
    using splitToDouble_loop_tokens [of us w "[fst (strtod t)]"] assms ts by simp
qed

subsection \<open>Segments in a JSON text\<close>

definition not_bracket :: char_class where "not_bracket = Bracket True [(CHR '']'', CHR '']'')]"

definition segments_items :: "item list" where
  "segments_items =
     lits (quoted ''segment'') @
     [Atom Space Star, Atom (Lit CHR '':'') Once, Atom (Lit CHR ''['') Once, Open, Atom not_bracket Plus, Close,
      Atom (Lit CHR '']'') Once]"

lemma class_has_not_bracket: "class_has not_bracket c \<longleftrightarrow> c \<noteq> CHR '']''"
proof -
  have "of_char CHR '']'' = (93 :: nat)" by simp
  moreover have "of_char c = (93 :: nat) \<longleftrightarrow> c = CHR '']''"
    by (metis char_of_char calculation)
  ultimately show ?thesis by (auto simp: not_bracket_def in_range_def)
qed

lemma re_compile_segments: "re_compile segments_pattern = Some segments_items"
proof -
  have "plain (quoted ''segment'')" by (simp add: plain_def quoted_def special_def)
  then have "re_items False (quoted ''segment'' @ CHR 0x5C # ''s*:'' @ CHR 0x5C # ''[([^'' @ CHR 0x5C # '']]+)'' @ CHR 0x5C # '']'') =
      map_option (\<lambda>its. lits (quoted ''segment'') @ its)
        (re_items False (CHR 0x5C # ''s*:'' @ CHR 0x5C # ''[([^'' @ CHR 0x5C # '']]+)'' @ CHR 0x5C # '']''))"
    by (rule re_items_plain) simp
  then show ?thesis
    by (simp add: re_compile_def segments_pattern_def segments_items_def not_bracket_def
        re_items.simps [of _ "_ # _"] re_atom_def re_quantifier_def)
qed

abbreviation segment_key :: string where "segment_key \<equiv> quoted ''segment''"

definition no_segment :: "string \<Rightarrow> bool" where
  "no_segment pre \<longleftrightarrow> \<not> sublist segment_key (pre @ butlast segment_key)"

lemma re_all_segment:
  assumes "no_segment pre" and "v \<noteq> []" and "CHR '']'' \<notin> set v"
  shows "re_all segments_items (pre @ segment_key @ '':['' @ v @ '']'' @ rest) = Some v # re_all segments_items rest"
proof -
  let ?t = "'':['' @ v @ '']'' @ rest"
  have "re_match [Atom not_bracket Plus, Close, Atom (Lit CHR '']'') Once] (v @ '']'' @ rest) (v @ '']'' @ rest) None =
      Some (rest, Some (take (length v) (v @ '']'' @ rest)))"
    by (rule re_match_plus_run) (use assms in \<open>auto simp: class_has_not_bracket list_all_iff take_one_def\<close>)
  then have "re_match (lits segment_key @ drop (length (lits segment_key)) segments_items)
      (segment_key @ ?t) (segment_key @ ?t) None = Some (rest, Some v)"
    unfolding re_match_lits by (simp add: segments_items_def take_one_def)
  moreover have its: "lits segment_key @ drop (length (lits segment_key)) segments_items = segments_items"
    by (simp add: segments_items_def)
  ultimately have "re_search segments_items (pre @ segment_key @ ?t) = Some (segment_key @ ?t, rest, Some v)"
    using re_search_first [of segment_key pre] assms(1) unfolding no_segment_def by metis
  then show ?thesis by (subst re_all.simps) simp
qed

lemma re_all_no_segment: "\<not> sublist segment_key s \<Longrightarrow> re_all segments_items s = []"
  using re_search_absent [of segment_key s] by (subst re_all.simps) (simp add: segments_items_def)

text \<open>An answer of the server: each segment with the text in front of it and its two numbers; what comes
  after the last.\<close>

type_synonym answer_part = "string \<times> string \<times> string"

fun part_text :: "answer_part \<Rightarrow> string" where
  "part_text (pre, a, b) = pre @ segment_key @ '':['' @ (a @ '','' @ b) @ '']''"

fun part_ok :: "answer_part \<Rightarrow> bool" where
  "part_ok (pre, a, b) \<longleftrightarrow> no_segment pre \<and> in_range_text a \<and> in_range_text b"

fun part_segment :: "answer_part \<Rightarrow> segment" where
  "part_segment (pre, a, b) = \<lparr>seg_begin = fst (strtod a), seg_end = fst (strtod b)\<rparr>"

fun part_array :: "answer_part \<Rightarrow> string" where
  "part_array (pre, a, b) = a @ '','' @ b"

lemma re_all_answer:
  assumes "list_all part_ok ps" and "\<not> sublist segment_key post"
  shows "re_all segments_items (concat (map part_text ps) @ post) = map (Some \<circ> part_array) ps"
  using assms(1)
proof (induction ps)
  case Nil
  then show ?case using re_all_no_segment [OF assms(2)] by simp
next
  case (Cons p ps)
  obtain pre a b where p: "p = (pre, a, b)" by (cases p)
  have ab: "decimal a" "decimal b" "no_segment pre" using Cons.prems by (simp_all add: p)
  have "CHR '']'' \<notin> set (a @ '','' @ b)"
    using decimal_has_no [OF ab(1), of "CHR '']''"] decimal_has_no [OF ab(2), of "CHR '']''"]
    by (simp add: is_digit_def)
  from re_all_segment [OF ab(3) _ this, of "concat (map part_text ps) @ post"]
  show ?case using Cons by (simp add: p)
qed

lemma collect_segments_answer:
  assumes "list_all part_ok ps" and "errno w \<noteq> ERANGE"
  shows "\<exists>w'. collect_segments (map part_array ps) segs w = (Some (segs @ map part_segment ps), w') \<and>
    core w' = core w \<and> sends w' = sends w \<and> errno w' = errno w"
  using assms
proof (induction ps arbitrary: segs w)
  case (Cons p ps)
  obtain pre a b where p: "p = (pre, a, b)" by (cases p)
  have split: "splitToDouble (a @ CHR '','' # b) w = ([fst (strtod a), fst (strtod b)], w)"
    using splitToDouble_decimals [of "[a, b]" w] Cons.prems by (simp add: p)
  define v where "v = when_verbose (puts (''Got segment '' @ fmt_g (fst (strtod a)) @ '' -> '' @
                        fmt_g (fst (strtod b)))) w"
  have v: "core v = core w" "sends v = sends w" "errno v = errno w"
    by (simp_all add: v_def puts_def) (simp add: emit_def)
  have "collect_segments (map part_array (p # ps)) segs w =
      collect_segments (map part_array ps) (segs @ [part_segment p]) v"
    by (simp add: p split v_def Let_def)
  then show ?case
    using Cons.IH [of v "segs @ [part_segment p]"] Cons.prems v by simp
qed simp

text \<open>An outside for the examples where the download succeeds: the host is known, its socket is 3, the TLS
  connection comes up, \<open>n\<close> bytes of the request are taken and \<open>response\<close> is read.\<close>

definition answering_env :: "nat \<Rightarrow> string \<Rightarrow> env" where
  "answering_env n response =
     (still_env 1000 0)\<lparr>env_host := (\<lambda>_ _. Some (10, 0, 0, 1)),
       env_int := (\<lambda>t. if t = 5 then 3 else if t = 9 then 1 else if t = 10 then int n else 0),
       env_ssl_read := (\<lambda>_ _. Inr response)\<rparr>"

lemma downloadFile_answered:
  assumes "http_body response = Some body"
  shows "\<exists>w1. downloadFile (answering_env (length (get_request host path)) response) host 443 path
      (linked_world\<lparr>errno := e\<rparr>) = Some (body, w1) \<and> errno w1 = e"
  using assms
  by (simp add: downloadFile_def new_connection_def connect_def download_on_def conn_write_def conn_read_def
      delete_connection_def close_fd_def TLS_client_method_def SSL_CTX_new_def SSL_CTX_set_verify_def SSL_new_def
      SSL_set_fd_def SSL_connect_def SSL_write_def SSL_read_def SSL_free_def SSL_CTX_free_def through_def sys_def
      answering_env_def still_env_def linked_world_def linked_def emit_def)

definition example_path :: string where
  "example_path = ''/api/skipSegments'' @ segments_query ''abc'' []"

definition example_response :: string where
  "example_response = ''HTTP/1.1 200 OK'' @ crlf @ crlf @ part_text (''[{'', ''12'', ''40'') @ ''}]''"

lemma example_answer:
  "http_body example_response = Some (concat (map part_text [(''[{'', ''12'', ''40'')]) @ ''}]'')"
  by (simp add: http_body_def example_response_def crlf_def Let_def quoted_def)

lemma example_parts:
  "list_all part_ok [(''[{'', ''12'', ''40'')]" "\<not> sublist segment_key ''}]''"
  "fst (strtod ''12'') = Fin 12" "fst (strtod ''40'') = Fin 40"
proof -
  have d: "dec 12 = ''12''" "dec 40 = ''40''" by code_simp+
  have "decimal ''12''" "decimal ''40''" by code_simp+
  moreover have "no_segment ''[{''" by (simp add: no_segment_def quoted_def sublist_Cons_right)
  ultimately show "list_all part_ok [(''[{'', ''12'', ''40'')]" "\<not> sublist segment_key ''}]''"
    "fst (strtod ''12'') = Fin 12" "fst (strtod ''40'') = Fin 40"
    using strtod_small [of 12] strtod_small [of 40] by (simp_all add: d quoted_def sublist_Cons_right)
qed

subsection \<open>Properties\<close>

text \<open>C36. One number too large switches the numbers off. A duration or position of \<open>2 ^ 1024\<close> or more sets
  \<open>errno\<close> to \<open>ERANGE\<close>, which \<open>extractNumber\<close> never clears: from then on it refuses every number, until
  another call happens to overwrite \<open>errno\<close>.\<close>

theorem overflow_disables_numbers:
  assumes "plain key" and "2 ^ 1024 \<le> n"
  shows "\<exists>w1. extractNumber (bare_value key ''[0-9.]'') (quoted key @ CHR '':'' # dec n) w = Some (None, w1) \<and>
    errno w1 = ERANGE \<and>
    (\<forall>regex payload r w2. extractNumber regex payload w1 = Some (r, w2) \<longrightarrow> r = None \<and> errno w2 = ERANGE)"
proof -
  have "regexExtract (bare_value key ''[0-9.]'') (quoted key @ CHR '':'' # dec n) = Some (dec n)"
    using regexExtract_first_number [OF assms(1), of "dec n" "[]" "[]"] is_digit_dec [of n] quoted_first
    by (simp add: class_has_digits_dot list_all_iff)
  moreover have "(of_nat (2 ^ 1024) :: rat) \<le> of_nat n" using assms(2) by (simp only: of_nat_le_iff)
  then have "strtod (dec n) = (PInf, [], True)"
    using strtod_dec [of "[]" n] nearest_overflow [of "of_nat n"]
    by (simp add: ends_number_def pow2_def)
  ultimately have "extractNumber (bare_value key ''[0-9.]'') (quoted key @ CHR '':'' # dec n) w =
      Some (None, w\<lparr>errno := ERANGE\<rparr>)"
    using is_digit_dec [of n] by (simp add: extractNumber_def until_nul_digits)
  moreover have "errno (w\<lparr>errno := ERANGE\<rparr>) = ERANGE" by simp
  ultimately show ?thesis using extractNumber_stuck by blast
qed

theorem overflow_disables_numbers_witness:
  "\<exists>w1. extractNumber (bare_value ''currentTime'' ''[0-9.]'')
       (quoted ''currentTime'' @ CHR '':'' # dec (2 ^ 1024)) linked_world = Some (None, w1) \<and> errno w1 = ERANGE"
proof -
  have "plain ''currentTime''" by (simp add: plain_def special_def)
  from overflow_disables_numbers [OF this order_refl, of linked_world] show ?thesis by blast
qed

text \<open>C6. The segments of the answer, in order: when every segment of it is a key, a colon without a blank after
  it and two decimals in brackets, and nothing else in it looks like a key, \<open>downloadSegments\<close> returns
  exactly the pairs of numbers, each read as \<open>strtod\<close> reads it.\<close>

theorem downloadSegments_reads_answer:
  assumes "downloadFile E ''sponsor.ajay.app'' 443
      (''/api/skipSegments'' @ segments_query videoId (s_categories w)) w = Some (json, w1)"
    and "json = concat (map part_text ps) @ post" and "json \<noteq> []" and "videoId \<noteq> []" and "errno w1 \<noteq> ERANGE"
    and "list_all part_ok ps" and "\<not> sublist segment_key post"
  shows "\<exists>w2. downloadSegments E videoId w = Some (map part_segment ps, w2) \<and> core w2 = core w1 \<and> sends w2 = sends w1"
proof -
  have "map group_text (re_all segments_items json) = map part_array ps"
    unfolding assms(2) re_all_answer [OF assms(6,7)] by (simp add: group_text_def)
  moreover obtain w2 where "collect_segments (map part_array ps) [] w1 = (Some (map part_segment ps), w2)"
    "core w2 = core w1" "sends w2 = sends w1"
    using collect_segments_answer [OF assms(6,5), of "[]"] by auto
  ultimately show ?thesis
    using assms(1,3,4) by (simp add: downloadSegments_def re_compile_segments)
qed

theorem downloadSegments_reads_answer_witness:
  "\<exists>w2. downloadSegments (answering_env (length (get_request ''sponsor.ajay.app'' example_path)) example_response)
      ''abc'' linked_world = Some ([\<lparr>seg_begin = Fin 12, seg_end = Fin 40\<rparr>], w2)"
proof -
  let ?E = "answering_env (length (get_request ''sponsor.ajay.app'' example_path)) example_response"
  obtain w1 where "downloadFile ?E ''sponsor.ajay.app'' 443 example_path linked_world =
      Some (concat (map part_text [(''[{'', ''12'', ''40'')]) @ ''}]'', w1)" and "errno w1 = 0"
    using downloadFile_answered [OF example_answer, of "''sponsor.ajay.app''" example_path 0] by (auto simp: linked_world_def)
  moreover have "s_categories linked_world = []" by (simp add: linked_world_def)
  ultimately show ?thesis
    using downloadSegments_reads_answer [of ?E "''abc''" linked_world _ w1, OF _ refl _ _ _ example_parts(1,2)] example_parts(3,4)
    by (auto simp: example_path_def ERANGE_def)
qed

text \<open>A number out of range seen earlier (in a status of the device, say) empties the list of segments of the next video.\<close>
theorem stale_error_loses_segments:
  assumes "downloadFile E ''sponsor.ajay.app'' 443
      (''/api/skipSegments'' @ segments_query videoId (s_categories w)) w = Some (json, w1)"
    and "json = concat (map part_text (p # ps)) @ post" and "videoId \<noteq> []" and "errno w1 = ERANGE"
    and "list_all part_ok (p # ps)" and "\<not> sublist segment_key post"
  shows "\<exists>w2. downloadSegments E videoId w = Some ([], w2) \<and> errno w2 = 0"
proof -
  obtain pre a b where p: "p = (pre, a, b)" by (cases p)
  have ab: "in_range_text a" "in_range_text b" using assms(5) by (simp_all add: p)
  have "until_nul (map (\<lambda>c. if c = CHR '','' then CHR '' '' else c) (part_array p)) = a @ CHR '' '' # b"
    using blank_text [of "[a, b]"] ab by (simp add: p)
  moreover have "strtod (a @ CHR '' '' # b) = (fst (strtod a), CHR '' '' # b, False)"
    by (rule strtod_token(1) [OF ab(1)]) (simp add: ends_number_def is_digit_def lower_def)
  ultimately obtain v where split: "splitToDouble (part_array p) w1 = ([], v\<lparr>errno := 0\<rparr>)"
    using assms(4) decimal_not_Nil [of a] ab(1)
    by (simp add: splitToDouble_def splitToDouble_loop.simps [of "a @ _"] Let_def del: part_array.simps)
  have "map group_text (re_all segments_items json) = map part_array (p # ps)"
    unfolding assms(2) re_all_answer [OF assms(5,6)] by (simp add: group_text_def)
  moreover have "json \<noteq> []" by (simp add: assms(2) p quoted_def)
  moreover have "\<exists>w2. collect_segments (map part_array (p # ps)) [] w1 = (None, w2) \<and> errno w2 = 0"
    using split by (simp del: part_array.simps) (simp add: puts_def emit_def)
  ultimately show ?thesis
    using assms(1,3) by (auto simp add: downloadSegments_def re_compile_segments simp del: collect_segments.simps)
qed

theorem stale_error_loses_segments_witness:
  "\<exists>w2. downloadSegments (answering_env (length (get_request ''sponsor.ajay.app'' example_path)) example_response)
      ''abc'' (linked_world\<lparr>errno := ERANGE\<rparr>) = Some ([], w2)"
proof -
  let ?E = "answering_env (length (get_request ''sponsor.ajay.app'' example_path)) example_response"
  let ?w = "linked_world\<lparr>errno := ERANGE\<rparr>"
  obtain w1 where "downloadFile ?E ''sponsor.ajay.app'' 443 example_path ?w =
      Some (concat (map part_text [(''[{'', ''12'', ''40'')]) @ ''}]'', w1)" and "errno w1 = ERANGE"
    using downloadFile_answered [OF example_answer, of "''sponsor.ajay.app''" example_path ERANGE] by blast
  moreover have "s_categories ?w = []" by (simp add: linked_world_def)
  ultimately show ?thesis
    using stale_error_loses_segments [of ?E "''abc''" ?w _ w1, OF _ refl _ _ example_parts(1,2)]
    by (auto simp: example_path_def)
qed

end
