(* ===== verification/Player.thy ===== *)
theory Player
  imports Chromecast Sponsor "HOL-Library.Signed_Division"
begin

text \<open>
  The first half of \<open>loop.h\<close>: where playback is, which segment comes next, when to seek, and the
  progress bar.
\<close>

definition PROGRESS_WIDTH :: int where "PROGRESS_WIDTH = 40"

abbreviation unset :: dbl where "unset \<equiv> Fin (- 1)"

subsection \<open>Position and segments\<close>

definition currentPosition :: "env \<Rightarrow> world \<Rightarrow> dbl \<times> world" where
  "currentPosition E w =
     (if \<not> currentlyPlaying w then (s_currentPosition w, w)
      else if dlt (s_currentPosition w) (Fin 0) then (unset, w)
      else let (now, w) = time E w;
               timeDelta = sub (of_integer now) (s_lastPositionFetched w)
           in (round_dbl (add timeDelta (s_currentPosition w)), w))"

text \<open>\<open>lowest\<close> is \<open>lowestBegin\<close>, \<open>None\<close> while \<open>found\<close> is false.\<close>

fun next_begin :: "dbl \<Rightarrow> segment list \<Rightarrow> dbl option \<Rightarrow> dbl option" where
  "next_begin current [] lowest = lowest"
| "next_begin current (segment # rest) lowest =
     (if dlt (seg_end segment) current then next_begin current rest lowest
      else next_begin current rest
        (case lowest of
           None \<Rightarrow> Some (seg_begin segment)
         | Some l \<Rightarrow> if dlt (seg_begin segment) l then Some (seg_begin segment) else lowest))"

definition secondsUntilNextSegment :: "env \<Rightarrow> world \<Rightarrow> dbl \<times> world" where
  "secondsUntilNextSegment E w =
     (let (current, w) = currentPosition E w
      in if dlt current (Fin 0) then (unset, puts ''no current position'' w)
         else if currentSegments w = [] then (unset, w)
         else case next_begin current (currentSegments w) None of
           None \<Rightarrow> (unset, w)
         | Some lowestBegin \<Rightarrow> (sub lowestBegin current, w))"

fun segment_end_after :: "int \<Rightarrow> segment list \<Rightarrow> dbl option" where
  "segment_end_after current [] = Some unset"
| "segment_end_after current (segment # rest) =
     (case to_int (seg_end segment) of
        None \<Rightarrow> None
      | Some e \<Rightarrow>
          if e \<le> current then segment_end_after current rest
          else if dlt (seg_begin segment) (of_integer current) then Some (seg_end segment)
          else segment_end_after current rest)"

definition currentSegmentEnd :: "env \<Rightarrow> world \<Rightarrow> (dbl \<times> world) option" where
  "currentSegmentEnd E w =
     (let (position, w) = currentPosition E w
      in do {
        current \<leftarrow> to_int (ceil_dbl position);
        if current < 0 then Some (unset, w)
        else if currentSegments w = [] then Some (unset, w)
        else do {
          e \<leftarrow> segment_end_after current (currentSegments w);
          Some (e, w)
        }
      })"

text \<open>The end of \<open>maybeSeek\<close>, once there is a segment to leave.\<close>

definition skip_to :: "env \<Rightarrow> dbl \<Rightarrow> world \<Rightarrow> (unit \<times> world) option" where
  "skip_to E segmentEnd w =
     (if \<not> currentlyPlaying w then Some ((), w)
      else do {
        let (now, w) = time E w;
        if now - s_lastSeek w < 1 then Some ((), w)
        else do {
          let (now, w) = time E w;
          let w = puts ''Skipping sponsor...'' (w\<lparr>s_lastSeek := now\<rparr>);
          (_, w) \<leftarrow> seek E segmentEnd
             (w\<lparr>s_currentPosition := unset, nextSegmentStart := unset, s_lastPositionFetched := unset\<rparr>);
          Some ((), w)
        }
      })"

definition maybeSeek :: "env \<Rightarrow> world \<Rightarrow> (unit \<times> world) option" where
  "maybeSeek E w =
     (if currentVideo w = [] then Some ((), w)
      else if currentSegments w = [] then Some ((), w)
      else do {
        (segmentEnd, w) \<leftarrow> currentSegmentEnd E w;
        if dlt segmentEnd (Fin 0) then Some ((), w)
        else do {
          let w = (if s_verbose w
                   then (let (position, w) = currentPosition E w
                         in puts (''Current segment ends at: '' @ fmt_f segmentEnd @ '', position at '' @
                              fmt_f position) w)
                   else w);
          skip_to E segmentEnd w
        }
      })"

subsection \<open>The progress bar\<close>

text \<open>\<open>%.2d\<close>, and \<open>printTimestamp\<close> as the text it prints.\<close>

definition two_digits :: "int \<Rightarrow> string" where
  "two_digits i = (if i < 0 then CHR ''-'' # pad 2 (nat (- i)) else pad 2 (nat i))"

definition printTimestamp :: "int \<Rightarrow> string" where
  "printTimestamp timestamp =
     (let seconds = timestamp smod 60; timestamp = timestamp sdiv 60;
          minutes = timestamp smod 60; timestamp = timestamp sdiv 60;
          hours = timestamp smod 60
      in two_digits hours @ '':'' @ two_digits minutes @ '':'' @ two_digits seconds)"

definition forward :: string where
  "forward = CHR 0x1B # ''[C''"

definition repeat_text :: "int \<Rightarrow> string \<Rightarrow> string" where
  "repeat_text n s = concat (replicate (nat n) s)"

definition bar_length :: "dbl \<Rightarrow> dbl \<Rightarrow> int option" where
  "bar_length position full =
     map_option (\<lambda>playedLength. if PROGRESS_WIDTH < playedLength then PROGRESS_WIDTH else playedLength)
       (to_int (divide_dbl (mul position (of_integer PROGRESS_WIDTH)) full))"

definition segment_mark :: "dbl \<Rightarrow> segment \<Rightarrow> string option" where
  "segment_mark full segment = do {
     start \<leftarrow> to_int (divide_dbl (mul (of_integer PROGRESS_WIDTH) (seg_begin segment)) full);
     let start = (if PROGRESS_WIDTH \<le> start then PROGRESS_WIDTH - 1 else start);
     n \<leftarrow> to_int (divide_dbl (mul (of_integer PROGRESS_WIDTH) (sub (seg_end segment) (seg_begin segment))) full);
     let segmentLength = max n 1;
     Some (CHR 0x0D # forward @ repeat_text start forward @ repeat_text segmentLength ''#'')
   }"

fun segment_marks :: "dbl \<Rightarrow> segment list \<Rightarrow> string option" where
  "segment_marks full [] = Some []"
| "segment_marks full (segment # rest) = do {
     m \<leftarrow> segment_mark full segment;
     ms \<leftarrow> segment_marks full rest;
     Some (m @ ms)
   }"

definition printProgress :: "dbl \<Rightarrow> dbl \<Rightarrow> world \<Rightarrow> (unit \<times> world) option" where
  "printProgress position full w =
     (if dlt position (Fin 0) \<or> dlt full (Fin 0) \<or> dlt (s_lastPositionFetched w) (Fin 0)
      then Some ((), out (s_currentStatus w @ erase_line) w)
      else do {
        playedLength \<leftarrow> bar_length position full;
        seconds \<leftarrow> to_int position;
        duration \<leftarrow> to_int full;
        marks \<leftarrow> segment_marks full (currentSegments w);
        Some ((), out (CHR 0x0D # ''['' @ repeat_text playedLength ''='' @
          (if currentlyPlaying w then ''>'' else ''|'') @
          repeat_text (PROGRESS_WIDTH - playedLength) ''-'' @ ''] '' @
          printTimestamp seconds @ ''/'' @ printTimestamp duration @ marks @ erase_line) w)
      })"

subsection \<open>The position\<close>

lemma currentPosition_core: "currentPosition E w = (p, w') \<Longrightarrow> core w' = core w \<and> sends w' = sends w"
  by (auto simp: currentPosition_def time_def split: if_splits prod.splits dest: snd_sys_core)

lemma secondsUntil_core: "secondsUntilNextSegment E w = (d, w') \<Longrightarrow> core w' = core w \<and> sends w' = sends w"
  by (auto simp: secondsUntilNextSegment_def split: if_splits prod.splits option.splits dest: currentPosition_core)

lemma currentSegmentEnd_core: "currentSegmentEnd E w = Some (e, w') \<Longrightarrow> core w' = core w \<and> sends w' = sends w"
  by (auto simp: currentSegmentEnd_def Option.bind_eq_Some_conv split: if_splits prod.splits dest: currentPosition_core)

lemma fst_currentPosition:
  "fst (currentPosition E w) =
     (if \<not> currentlyPlaying w then s_currentPosition w
      else if dlt (s_currentPosition w) (Fin 0) then unset
      else round_dbl (add (sub (of_integer (env_time E (tick w))) (s_lastPositionFetched w)) (s_currentPosition w)))"
proof -
  obtain now v where t: "time E w = (now, v)" by (cases "time E w")
  then have "now = env_time E (tick w)" "core v = core w"
    using fst_sys [of E "env_time E" w] snd_sys_core [of E "env_time E" w] by (auto simp: time_def)
  note this(1) core_eqD [OF this(2)]
  with t show ?thesis by (simp add: currentPosition_def)
qed

lemma whole_position:
  assumes "s_currentPosition w = Fin (of_int p)" and "0 \<le> p" and "s_lastPositionFetched w = Fin (of_int t)"
    and "\<bar>env_time E (tick w)\<bar> < 2 ^ 52" and "\<bar>env_time E (tick w) - t\<bar> < 2 ^ 52" and "p < 2 ^ 52"
  shows "fst (currentPosition E w) =
    Fin (of_int (if currentlyPlaying w then p + (env_time E (tick w) - t) else p))"
proof -
  let ?now = "env_time E (tick w)"
  have "of_integer ?now = Fin (of_int ?now)" using assms(4) by (simp add: of_integer_small)
  moreover have "sub (Fin (of_int ?now)) (Fin (of_int t)) = Fin (of_int (?now - t))"
    by (rule sub_int) (use assms(5) in simp)
  moreover have "add (Fin (of_int (?now - t))) (Fin (of_int p)) = Fin (of_int (?now - t + p))"
    by (rule add_int) (use assms in simp)
  moreover have "\<not> dlt (Fin (of_int p)) (Fin 0)" using assms(2) by (simp add: dlt_def)
  ultimately show ?thesis
    unfolding fst_currentPosition assms(1,3) by (simp only: round_dbl_int if_False add.commute split: if_split) simp
qed

subsection \<open>Segments\<close>

lemma next_begin_minimum:
  assumes "\<forall>s \<in> set segs. finite_dbl (seg_begin s)" and "\<And>l. lowest = Some l \<Longrightarrow> finite_dbl l"
  shows "case next_begin current segs lowest of
      None \<Rightarrow> lowest = None \<and> (\<forall>s \<in> set segs. dlt (seg_end s) current)
    | Some l \<Rightarrow> (lowest = Some l \<or> (\<exists>s \<in> set segs. \<not> dlt (seg_end s) current \<and> l = seg_begin s)) \<and>
        (\<forall>b. lowest = Some b \<longrightarrow> val l \<le> val b) \<and>
        (\<forall>s \<in> set segs. \<not> dlt (seg_end s) current \<longrightarrow> val l \<le> val (seg_begin s))"
  using assms
proof (induction current segs lowest rule: next_begin.induct)
  case (1 current lowest)
  then show ?case by (cases lowest) auto
next
  case (2 current segment rest lowest)
  show ?case
  proof (cases "dlt (seg_end segment) current")
    case True
    then show ?thesis using 2 by (auto split: option.split)
  next
    case False
    let ?low = "case lowest of None \<Rightarrow> Some (seg_begin segment)
      | Some l \<Rightarrow> if dlt (seg_begin segment) l then Some (seg_begin segment) else lowest"
    have low: "\<exists>l. ?low = Some l \<and> finite_dbl l \<and> (lowest = Some l \<or> l = seg_begin segment) \<and>
        val l \<le> val (seg_begin segment) \<and> (\<forall>b. lowest = Some b \<longrightarrow> val l \<le> val b)"
      using "2.prems" by (cases lowest) (auto simp: dlt_finite)
    then obtain l where l: "?low = Some l" "finite_dbl l" "lowest = Some l \<or> l = seg_begin segment"
        "val l \<le> val (seg_begin segment)" "\<forall>b. lowest = Some b \<longrightarrow> val l \<le> val b" by blast
    have "next_begin current (segment # rest) lowest = next_begin current rest (Some l)"
      using False l(1) by (simp only: next_begin.simps if_False)
    moreover have "case next_begin current rest (Some l) of
        None \<Rightarrow> False
      | Some m \<Rightarrow> (l = m \<or> (\<exists>s \<in> set rest. \<not> dlt (seg_end s) current \<and> m = seg_begin s)) \<and> val m \<le> val l \<and>
          (\<forall>s \<in> set rest. \<not> dlt (seg_end s) current \<longrightarrow> val m \<le> val (seg_begin s))"
      using "2.IH"(2) [OF False] "2.prems"(1) l(1,2) by (auto split: option.splits)
    ultimately show ?thesis
      using False l(3-5) by (auto split: option.splits intro: order_trans)
  qed
qed

lemma segment_end_after_Some:
  assumes "segment_end_after c segs = Some e"
  shows "e = unset \<or> (\<exists>s \<in> set segs. e = seg_end s \<and> dlt (seg_begin s) (of_integer c) \<and>
    (\<exists>k. to_int (seg_end s) = Some k \<and> c < k))"
  using assms
  by (induction c segs rule: segment_end_after.induct) (auto split: option.splits if_splits)

lemma currentSegmentEnd_Some:
  assumes "currentSegmentEnd E w = Some (e, w')"
  shows "core w' = core w \<and> sends w' = sends w \<and>
    (\<exists>c. to_int (ceil_dbl (fst (currentPosition E w))) = Some c \<and>
      (e = unset \<or> 0 \<le> c \<and> (\<exists>s \<in> set (currentSegments w). e = seg_end s \<and> dlt (seg_begin s) (of_integer c) \<and>
        (\<exists>k. to_int (seg_end s) = Some k \<and> c < k))))"
proof -
  obtain p v where p: "currentPosition E w = (p, v)" by (cases "currentPosition E w")
  note v = currentPosition_core [OF p]
  show ?thesis
    using assms p v core_eqD(4) [OF v [THEN conjunct1]]
    by (auto simp: currentSegmentEnd_def Option.bind_eq_Some_conv not_less split: if_splits
        dest!: segment_end_after_Some)
qed

definition may_seek :: "env \<Rightarrow> world \<Rightarrow> segment \<Rightarrow> bool" where
  "may_seek E w s \<longleftrightarrow> currentlyPlaying w \<and> currentVideo w \<noteq> [] \<and> s \<in> set (currentSegments w) \<and>
     (\<exists>c k. to_int (ceil_dbl (fst (currentPosition E w))) = Some c \<and> 0 \<le> c \<and>
        dlt (seg_begin s) (of_integer c) \<and> to_int (seg_end s) = Some k \<and> c < k)"

definition after_seek :: "int \<Rightarrow> world \<Rightarrow> world" where
  "after_seek now w = w\<lparr>s_lastSeek := now, s_currentPosition := unset, nextSegmentStart := unset,
     s_lastPositionFetched := unset\<rparr>"

lemma skip_to_cases:
  assumes "skip_to E e w = Some (u, w')"
  shows "core w' = core w \<and> sends w' = sends w \<or>
    currentlyPlaying w \<and> (\<exists>t v ok. 1 \<le> env_time E t - s_lastSeek w \<and>
      core v = after_seek (env_time E (Suc t)) (core w) \<and> sends v = sends w \<and> seek E e v = Some (ok, w'))"
proof (cases "currentlyPlaying w")
  case playing: True
  obtain n3 v3 where t3: "time E w = (n3, v3)" by (cases "time E w")
  obtain n4 v4 where t4: "time E v3 = (n4, v4)" by (cases "time E v3")
  note n3 = time_eq [OF t3] and n4 = time_eq [OF t4]
  then have f3: "s_lastSeek v3 = s_lastSeek w" using core_eqD(11) by blast
  show ?thesis
  proof (cases "n3 - s_lastSeek v3 < 1")
    case True
    then show ?thesis using assms playing t3 n3 by (simp add: skip_to_def)
  next
    case False
    define v where "v = (puts ''Skipping sponsor...'' (v4\<lparr>s_lastSeek := n4\<rparr>))
      \<lparr>s_currentPosition := unset, nextSegmentStart := unset, s_lastPositionFetched := unset\<rparr>"
    obtain ok where "seek E e v = Some (ok, w')"
      using assms playing t3 t4 False by (auto simp: skip_to_def v_def Option.bind_eq_Some_conv)
    moreover have "sends v = sends w" using n3 n4 by (simp add: v_def puts_def emit_def sends_def)
    moreover have "core v = after_seek n4 (core v4)"
      by (simp add: v_def puts_def emit_def core_def after_seek_def)
    ultimately show ?thesis using False n3 n4 f3 playing
      by (intro disjI2 conjI exI [of _ "tick w"] exI [of _ v] exI [of _ ok]) auto
  qed
qed (use assms in \<open>simp add: skip_to_def\<close>)

lemma maybeSeek_cases:
  assumes "maybeSeek E w = Some (u, w')"
  shows "core w' = core w \<and> sends w' = sends w \<or>
    (\<exists>s t v ok. may_seek E w s \<and> 1 \<le> env_time E t - s_lastSeek w \<and>
      core v = after_seek (env_time E (Suc t)) (core w) \<and> sends v = sends w \<and>
      seek E (seg_end s) v = Some (ok, w'))"
proof (cases "currentVideo w = [] \<or> currentSegments w = []")
  case True
  then have "w' = w" using assms by (cases "currentVideo w = []") (simp_all add: maybeSeek_def)
  then show ?thesis by simp
next
  case False
  then obtain e v1 where e: "currentSegmentEnd E w = Some (e, v1)"
    using assms by (auto simp: maybeSeek_def Option.bind_eq_Some_conv)
  note c1 = currentSegmentEnd_Some [OF e]
  show ?thesis
  proof (cases "dlt e (Fin 0)")
    case True
    then show ?thesis using assms False e c1 by (auto simp: maybeSeek_def)
  next
    case nonneg: False
    define v2 where "v2 = (if s_verbose v1
      then (let (position, w) = currentPosition E v1
            in puts (''Current segment ends at: '' @ fmt_f e @ '', position at '' @ fmt_f position) w)
      else v1)"
    have v2: "core v2 = core w" "sends v2 = sends w"
      using c1 by (auto simp: v2_def split: prod.splits dest: currentPosition_core)
    have skip: "skip_to E e v2 = Some (u, w')"
      using assms False e nonneg unfolding maybeSeek_def v2_def by (simp add: Let_def)
    have "e \<noteq> unset" using nonneg by (auto simp: dlt_def)
    then have "\<exists>s. e = seg_end s \<and> (currentlyPlaying w \<longrightarrow> may_seek E w s)"
      using c1 False by (auto simp: may_seek_def)
    then show ?thesis
      using skip_to_cases [OF skip] core_eqD(10,11) [OF v2(1)] v2 by auto
  qed
qed

subsection \<open>The bar\<close>

lemma rnd_nonneg: "0 \<le> r \<Longrightarrow> 0 \<le> val (rnd r)"
  using half_even_nonneg [of "\<bar>r\<bar> / ulp \<bar>r\<bar>"] less_imp_le [OF ulp_pos, of "\<bar>r\<bar>"]
  by (simp add: rnd_def Let_def infinity_def zero_def)

lemma mul_nonneg: "0 \<le> val x \<Longrightarrow> 0 \<le> val y \<Longrightarrow> 0 \<le> val (mul x y)"
  by (simp add: mul_def Let_def infinity_def rnd_nonneg)

lemma divide_nonneg_dbl: "0 \<le> val x \<Longrightarrow> 0 \<le> val y \<Longrightarrow> 0 \<le> val (divide_dbl x y)"
  by (simp add: divide_dbl_def Let_def infinity_def rnd_nonneg)

lemma to_int_nonneg: "to_int x = Some i \<Longrightarrow> 0 \<le> val x \<Longrightarrow> 0 \<le> i"
  by (auto simp: to_int_def Doubles.truncate_def split: if_splits)

lemma bar_length_bounds:
  assumes "bar_length position full = Some n" and "0 \<le> val position" and "0 \<le> val full"
  shows "0 \<le> n \<and> n \<le> 40"
proof -
  have "val (of_integer 40) = 40" using of_integer_small [of 40] by simp
  then show ?thesis
    using assms(1) to_int_nonneg divide_nonneg_dbl [OF mul_nonneg [OF assms(2)] assms(3), of "of_integer 40"]
    by (auto simp: bar_length_def PROGRESS_WIDTH_def)
qed

lemma divide_zero: "val full = 0 \<Longrightarrow> finite_dbl full \<Longrightarrow> \<not> finite_dbl (divide_dbl x full)"
  by (auto simp: divide_dbl_def Let_def infinity_def)

lemma smod_60: "int n smod 60 = int (n mod 60)"
  by (cases "n = 0") (simp_all add: signed_modulo_int_def zmod_int)

lemma sdiv_60: "int n sdiv 60 = int (n div 60)"
  by (cases "n = 0") (simp_all add: signed_divide_int_def zdiv_int)

subsection \<open>An example\<close>

text \<open>A world for the examples: a video with one segment is playing.\<close>

definition playing_world :: world where
  "playing_world = linked_world\<lparr>currentlyPlaying := True, s_youtube := True, currentVideo := ''abc'',
     s_currentPosition := Fin 20, s_lastPositionFetched := Fin 1000, mediaSession := ''7'',
     currentSegments := [\<lparr>seg_begin = Fin 12, seg_end = Fin 40\<rparr>]\<rparr>"

lemma playing_position: "fst (currentPosition (still_env 1002 0) playing_world) = Fin 22"
  using whole_position [of playing_world 20 1000 "still_env 1002 0"]
  by (simp add: playing_world_def still_env_def)

lemma playing_seeks:
  "\<exists>u w'. maybeSeek (still_env 1002 0) playing_world = Some (u, w') \<and> sends w' \<noteq> sends playing_world"
proof -
  let ?E = "still_env 1002 0"
  obtain v where v: "currentPosition ?E playing_world = (Fin 22, v)"
    using playing_position by (metis prod.collapse)
  note core = currentPosition_core [OF v]
  note f = core_eqD [OF core [THEN conjunct1]]
  have "to_int (ceil_dbl (Fin 22)) = Some 22" "to_int (Fin 40) = Some 40" "of_integer 22 = Fin 22"
    using to_int_int [of 22] ceil_dbl_int [of 22] to_int_int [of 40] of_integer_small [of 22] by (simp_all add: int_ok_def)
  then have "currentSegmentEnd ?E playing_world = Some (Fin 40, v)"
    using v f(4) by (simp add: currentSegmentEnd_def playing_world_def dlt_def)
  moreover have "s_verbose v = False" "\<not> dlt (Fin 40) (Fin 0)" using f(1) by (simp_all add: playing_world_def linked_world_def dlt_def)
  ultimately have m: "maybeSeek ?E playing_world = skip_to ?E (Fin 40) v"
    by (simp add: maybeSeek_def Let_def) (simp add: playing_world_def)
  obtain v3 where t3: "time ?E v = (1002, v3)" "core v3 = core v" "sends v3 = sends v"
    using time_eq [of ?E v] by (cases "time ?E v") (auto simp: still_env_def)
  obtain v4 where t4: "time ?E v3 = (1002, v4)" "core v4 = core v3" "sends v4 = sends v3"
    using time_eq [of ?E v3] by (cases "time ?E v3") (auto simp: still_env_def)
  define w where "w = (puts ''Skipping sponsor...'' (v4\<lparr>s_lastSeek := 1002\<rparr>))
      \<lparr>s_currentPosition := unset, nextSegmentStart := unset, s_lastPositionFetched := unset\<rparr>"
  have "core v4 = core playing_world" using t3 t4 core by simp
  note g = core_eqD [OF this]
  have "EXT_SSL_write (ssl w) \<noteq> None" "mediaSession w = ''7''" "s_requestId w = 1" "dest w = []"
    "sends w = sends playing_world"
    using g core t3 t4 by (simp_all add: w_def puts_def emit_def) (simp_all add: playing_world_def linked_world_def linked_def sends_def)
  then obtain ok w' where "seek ?E (Fin 40) w = Some (ok, w')" "sends w' \<noteq> sends playing_world"
    using seek_defined [of w ?E "Fin 40"] by (auto simp: int_ok_def)
  moreover have "currentlyPlaying v" "s_lastSeek v3 = 0"
    using f(10) core_eqD(11) [OF t3(2)] f(11) by (simp_all add: playing_world_def linked_world_def)
  ultimately show ?thesis using m t3(1) t4(1) by (simp add: skip_to_def w_def)
qed

subsection \<open>Properties\<close>

text \<open>C9. Where playback is. While a video plays, the position reported is the last one the device gave plus the
  seconds since; while it is paused, the last one. Stated for whole seconds, where no rounding happens.\<close>

theorem currentPosition_extrapolates:
  assumes "s_currentPosition w = Fin (of_int p)" and "0 \<le> p" and "s_lastPositionFetched w = Fin (of_int t)"
    and "\<bar>env_time E (tick w)\<bar> < 2 ^ 52" and "\<bar>env_time E (tick w) - t\<bar> < 2 ^ 52" and "p < 2 ^ 52"
  shows "fst (currentPosition E w) =
    Fin (of_int (if currentlyPlaying w then p + (env_time E (tick w) - t) else p))"
  using assms by (rule whole_position)

theorem currentPosition_extrapolates_witness:
  "fst (currentPosition (still_env 1002 0) playing_world) = Fin 22"
  using currentPosition_extrapolates [of playing_world 20 1000 "still_env 1002 0"]
  by (simp add: playing_world_def still_env_def)

text \<open>C8. The next segment. The time to it is the distance to the earliest beginning among the segments not
  yet over, negative when one of them is being played, and \<open>- 1\<close> when all are over (or none is known).\<close>

theorem secondsUntilNextSegment_spec:
  assumes "fst (currentPosition E w) = Fin (of_int p)" and "0 \<le> p"
    and "\<forall>s \<in> set (currentSegments w). \<exists>b e. s = \<lparr>seg_begin = Fin (of_int b), seg_end = Fin (of_int e)\<rparr> \<and>
      0 \<le> b \<and> b < 2 ^ 52"
    and "p < 2 ^ 52"
  shows "\<exists>d w'. secondsUntilNextSegment E w = (Fin (of_int d), w') \<and> core w' = core w \<and> sends w' = sends w \<and>
    (if \<exists>s \<in> set (currentSegments w). of_int p \<le> val (seg_end s)
     then (\<exists>s \<in> set (currentSegments w). of_int p \<le> val (seg_end s) \<and> of_int d = val (seg_begin s) - of_int p) \<and>
       (\<forall>s \<in> set (currentSegments w). of_int p \<le> val (seg_end s) \<longrightarrow> of_int d \<le> val (seg_begin s) - of_int p)
     else d = - 1)"
proof -
  obtain v where pos: "currentPosition E w = (Fin (of_int p), v)" using assms(1) by (metis prod.collapse)
  have v: "core v = core w" "sends v = sends w" using currentPosition_core [OF pos] by simp_all
  note [simp] = core_eqD(4) [OF v(1)]
  have nonneg: "\<not> dlt (Fin (of_int p)) (Fin 0)" using assms(2) by (simp add: dlt_def)
  have fin: "finite_dbl (seg_begin s)" "finite_dbl (seg_end s)" if "s \<in> set (currentSegments w)" for s
    using assms(3) that by (metis finite_dbl.simps(1) segment.select_convs(1), metis finite_dbl.simps(1) segment.select_convs(2))
  have dl: "\<not> dlt (seg_end s) (Fin (of_int p)) \<longleftrightarrow> of_int p \<le> val (seg_end s)" if "s \<in> set (currentSegments w)" for s
    using fin [OF that] by (simp add: dlt_finite not_less)
  have least: "case next_begin (Fin (of_int p)) (currentSegments w) None of
      None \<Rightarrow> \<forall>s \<in> set (currentSegments w). dlt (seg_end s) (Fin (of_int p))
    | Some l \<Rightarrow> (\<exists>s \<in> set (currentSegments w). \<not> dlt (seg_end s) (Fin (of_int p)) \<and> l = seg_begin s) \<and>
        (\<forall>s \<in> set (currentSegments w). \<not> dlt (seg_end s) (Fin (of_int p)) \<longrightarrow> val l \<le> val (seg_begin s))"
    using next_begin_minimum [of "currentSegments w" None "Fin (of_int p)"] fin(1) by (auto split: option.splits)
  show ?thesis
  proof (cases "next_begin (Fin (of_int p)) (currentSegments w) None")
    case None
    then have "\<forall>s \<in> set (currentSegments w). \<not> of_int p \<le> val (seg_end s)" using least dl by auto
    moreover have "secondsUntilNextSegment E w = (Fin (of_int (- 1)), v)"
      using None by (simp add: secondsUntilNextSegment_def pos nonneg)
    ultimately show ?thesis using v by auto
  next
    case (Some l)
    then obtain s where s: "s \<in> set (currentSegments w)" "\<not> dlt (seg_end s) (Fin (of_int p))" "l = seg_begin s"
      and le: "\<forall>s \<in> set (currentSegments w). \<not> dlt (seg_end s) (Fin (of_int p)) \<longrightarrow> val l \<le> val (seg_begin s)"
      using least by auto
    obtain b where b: "l = Fin (of_int b)" "0 \<le> b" "b < 2 ^ 52" using assms(3) s(1,3) by fastforce
    have "sub l (Fin (of_int p)) = Fin (of_int (b - p))" unfolding b(1) by (rule sub_int) (use b assms in simp)
    then have "secondsUntilNextSegment E w = (Fin (of_int (b - p)), v)"
      using Some s(1) nonneg by (auto simp: secondsUntilNextSegment_def pos)
    moreover have "of_int (b - p) = val (seg_begin s) - of_int p" using b(1) s(3) by simp
    moreover have "\<forall>s \<in> set (currentSegments w). of_int p \<le> val (seg_end s) \<longrightarrow> of_int (b - p) \<le> val (seg_begin s) - of_int p"
      using le dl b(1) by simp
    ultimately show ?thesis using s dl v by (intro exI [of _ "b - p"]) auto
  qed
qed

theorem secondsUntilNextSegment_spec_witness:
  "\<exists>d w'. secondsUntilNextSegment (still_env 1002 0) playing_world = (Fin (of_int d), w') \<and> (of_int d :: rat) = - 10"
proof -
  have 1: "fst (currentPosition (still_env 1002 0) playing_world) = Fin (of_int 22)" using playing_position by simp
  have 2: "\<forall>s \<in> set (currentSegments playing_world). \<exists>b e. s = \<lparr>seg_begin = Fin (of_int b), seg_end = Fin (of_int e)\<rparr> \<and>
      0 \<le> b \<and> b < 2 ^ 52"
    by (simp add: playing_world_def)
  from secondsUntilNextSegment_spec [OF 1 _ 2] show ?thesis by (auto simp: playing_world_def)
qed

text \<open>C3. When \<open>maybeSeek\<close> says anything, it is one seek, to the end of a known segment that is playing
  now: the position, rounded up, is after its beginning and before its end, so playback only ever moves
  forward. The last seek is at least a second ago, a video is playing, and position, time of the
  position and next segment are unset afterwards.\<close>

theorem maybeSeek_seeks_forward:
  assumes "maybeSeek E w = Some (u, w')" and "sends w' \<noteq> sends w"
  shows "\<exists>s t. may_seek E w s \<and> 1 \<le> env_time E t - s_lastSeek w \<and>
    sends w' = sends w @ [frame (env_target E) (message_for (dest w) (ns_strings NsMedia)
      (seek_text (dec_int (s_requestId w)) (mediaSession w) (seg_end s)))] \<and>
    core w' = (after_seek (env_time E (Suc t)) (core w))\<lparr>s_requestId := s_requestId w + 1\<rparr>"
proof -
  obtain s t v ok where s: "may_seek E w s" "1 \<le> env_time E t - s_lastSeek w"
    and v: "core v = after_seek (env_time E (Suc t)) (core w)" "sends v = sends w"
    and ok: "seek E (seg_end s) v = Some (ok, w')"
    using maybeSeek_cases [OF assms(1)] assms(2) by auto
  have f: "dest v = dest w" "s_requestId v = s_requestId w" "mediaSession v = mediaSession w"
    using v(1) core_sel(15,16,19) [of v] core_sel(15,16,19) [of w] by (simp_all add: after_seek_def)
  have "core w' = (core v)\<lparr>s_requestId := s_requestId w'\<rparr>" "s_requestId w' = s_requestId v + 1"
    using seek_speaks [OF ok] ok assms(2) v(2)
    by (auto simp: seek_def next_request_id_Some Option.bind_eq_Some_conv split: if_splits dest!: sendMessage_speaks)
  then show ?thesis using s v f seek_sends [OF ok] assms(2) by (intro exI [of _ s] exI [of _ t]) simp
qed

theorem maybeSeek_seeks_forward_witness:
  "\<exists>w' s. maybeSeek (still_env 1002 0) playing_world = Some ((), w') \<and>
    may_seek (still_env 1002 0) playing_world s \<and> s_currentPosition (core w') = unset"
  using playing_seeks maybeSeek_seeks_forward [of "still_env 1002 0" playing_world] by (fastforce simp: after_seek_def)



text \<open>The progress bar is always 40 characters wide: as many \<open>=\<close> as played, the mark, and \<open>-\<close> for the rest.\<close>

theorem progress_bar_width:
  assumes "printProgress position full w = Some (u, w')"
    and "\<not> (dlt position (Fin 0) \<or> dlt full (Fin 0) \<or> dlt (s_lastPositionFetched w) (Fin 0))"
    and "finite_dbl position" and "finite_dbl full"
  shows "\<exists>k \<le> 40. \<exists>rest. w' = out (CHR 0x0D # ''['' @ replicate k CHR ''='' @
      (if currentlyPlaying w then ''>'' else ''|'') @ replicate (40 - k) CHR ''-'' @ '']'' @ rest) w"
proof -
  obtain n seconds duration marks where n: "bar_length position full = Some n"
    and w': "w' = out (CHR 0x0D # ''['' @ repeat_text n ''='' @ (if currentlyPlaying w then ''>'' else ''|'') @
          repeat_text (PROGRESS_WIDTH - n) ''-'' @ ''] '' @
          printTimestamp seconds @ ''/'' @ printTimestamp duration @ marks @ erase_line) w"
    using assms(1,2) by (auto simp: printProgress_def Option.bind_eq_Some_conv)
  have "0 \<le> val position" "0 \<le> val full"
    using assms(2-4) by (simp_all add: dlt_finite not_less)
  from bar_length_bounds [OF n this] have b: "nat n \<le> 40" "nat (PROGRESS_WIDTH - n) = 40 - nat n"
    by (auto simp add: PROGRESS_WIDTH_def nat_diff_distrib)
  have r: "repeat_text i [c] = replicate (nat i) c" for i c
    by (induction "nat i") (simp_all add: repeat_text_def)
  have "concat (replicate m [c]) = replicate m c" for m and c :: char by (induction m) simp_all
  then show ?thesis
    using b(1) unfolding w' repeat_text_def b(2) by (intro exI [of _ "nat n"]) auto
qed

theorem progress_bar_width_witness:
  "\<exists>w'. printProgress (Fin 20) (Fin 40) (linked_world\<lparr>s_lastPositionFetched := Fin 1000\<rparr>) = Some ((), w') \<and>
    (\<exists>k \<le> 40. \<exists>rest. w' = out (CHR 0x0D # ''['' @ replicate k CHR ''='' @ ''|'' @
       replicate (40 - k) CHR ''-'' @ '']'' @ rest) (linked_world\<lparr>s_lastPositionFetched := Fin 1000\<rparr>))"
proof -
  let ?w = "linked_world\<lparr>s_lastPositionFetched := Fin 1000\<rparr>"
  have "mul (Fin 20) (Fin 40) = Fin 800" "divide_dbl (Fin 800) (Fin 40) = Fin 20" "of_integer 40 = Fin 40"
    using rnd_int_small [of 800] rnd_int_small [of 20] of_integer_small [of 40] by (simp_all add: mul_def divide_dbl_def)
  then have "\<exists>w'. printProgress (Fin 20) (Fin 40) ?w = Some ((), w')"
    using to_int_int [of 20] to_int_int [of 40]
    by (simp add: printProgress_def bar_length_def PROGRESS_WIDTH_def dlt_def int_ok_def) (simp add: linked_world_def)
  then show ?thesis
    using progress_bar_width [of "Fin 20" "Fin 40" ?w] by (auto simp: dlt_def) (auto simp: linked_world_def)
qed

text \<open>Below 60 hours, \<open>printTimestamp\<close> prints hours, minutes and seconds of two digits each that read
  back to the seconds it was given.\<close>

theorem printTimestamp_reads_back:
  assumes "n < 216000"
  shows "\<exists>h m s. printTimestamp (int n) = h @ '':'' @ m @ '':'' @ s \<and> length h = 2 \<and> length m = 2 \<and> length s = 2 \<and>
    list_all is_digit (h @ m @ s) \<and> number_of 10 h * 3600 + number_of 10 m * 60 + number_of 10 s = n \<and>
    number_of 10 m < 60 \<and> number_of 10 s < 60"
proof -
  let ?h = "n div 60 div 60 mod 60" and ?m = "n div 60 mod 60" and ?s = "n mod 60"
  have two: "two_digits (int k) = pad 2 k" for k by (simp add: two_digits_def)
  have "printTimestamp (int n) = pad 2 ?h @ '':'' @ pad 2 ?m @ '':'' @ pad 2 ?s"
    unfolding printTimestamp_def Let_def smod_60 sdiv_60 two by (rule refl)
  moreover have "?h * 3600 + ?m * 60 + ?s = n"
  proof -
    have "n div 60 div 60 < 60" using assms by (simp add: div_less_iff_less_mult)
    then have "?h = n div 60 div 60" by simp
    moreover have "n div 60 div 60 * 60 + ?m = n div 60" "n div 60 * 60 + ?s = n" by (rule div_mult_mod_eq)+
    ultimately show ?thesis by linarith
  qed
  moreover have "?h < 60" "?m < 60" "?s < 60" by simp_all
  ultimately obtain h m s where p: "printTimestamp (int n) = pad 2 h @ '':'' @ pad 2 m @ '':'' @ pad 2 s"
    and n: "h * 3600 + m * 60 + s = n" "h < 60" "m < 60" "s < 60" by blast
  have "length (pad 2 k) = 2" if "k < 60" for k using length_pad [of k 2] that by simp
  then have "length (pad 2 h) = 2 \<and> length (pad 2 m) = 2 \<and> length (pad 2 s) = 2" using n by blast
  then show ?thesis
    unfolding p
    apply -
    apply (rule exI [where x = "pad 2 h"], rule exI [where x = "pad 2 m"], rule exI [where x = "pad 2 s"])
    using n by (simp add: list_all_pad)
qed

theorem printTimestamp_reads_back_witness: "\<exists>h m s. printTimestamp 3725 = h @ '':'' @ m @ '':'' @ s \<and> number_of 10 s < 60"
  using printTimestamp_reads_back [of 3725] by fastforce

text \<open>C38. A length of zero, which a status of the device can contain, is undefined behaviour in
  \<open>printProgress\<close>: the quotient of the bar is an infinity or not a number, and is converted to \<open>int\<close>.\<close>

theorem zero_length_undefined:
  assumes "finite_dbl position" and "\<not> dlt position (Fin 0)" and "\<not> dlt (s_lastPositionFetched w) (Fin 0)"
  shows "printProgress position (Fin 0) w = None"
  using assms divide_zero [of "Fin 0"] by (simp add: printProgress_def bar_length_def to_int_def dlt_def)

theorem zero_length_undefined_witness:
  "printProgress (Fin 20) (Fin 0) (linked_world\<lparr>s_lastPositionFetched := Fin 1000\<rparr>) = None"
  by (rule zero_length_undefined) (simp_all add: dlt_def)

end
