(* ===== verification/Loop.thy ===== *)
theory Loop
  imports Player
begin

text \<open>
  The second half of \<open>loop.h\<close>: \<open>handleMessage\<close>, what the program does with a message of the device, and
  \<open>loop\<close>, one connection from its start to its end.

  \<open>handleMessage\<close> is split at its blocks. \<open>loop\<close> is \<open>loop_start\<close>, then \<open>loop_step\<close> over and over: one
  pass of the \<open>while\<close>, which ends in \<open>Again\<close> or in the value to return. \<open>loop_run\<close> repeats it with a
  bound on the number of passes, \<open>Running\<close> when the bound is used up.
\<close>

subsection \<open>Patterns\<close>

definition pat_type :: string where
  "pat_type = quoted ''type'' @ re_colon @ CHR 0x22 # ''([^'' @ CHR 0x22 # '']+)'' @ [CHR 0x22]"

definition pat_duration :: string where
  "pat_duration = quoted ''duration'' @ re_colon @ ''([0-9.]+)''"

definition pat_currentTime :: string where
  "pat_currentTime = quoted ''currentTime'' @ re_colon @ ''([0-9.]+)''"

definition pat_playerState :: string where
  "pat_playerState = quoted ''playerState'' @ re_colon @ CHR 0x22 # ''([A-Z]+)'' @ [CHR 0x22]"

definition pat_mediaSessionId :: string where
  "pat_mediaSessionId = quoted ''mediaSessionId'' @ re_colon @ ''([0-9]+)''"

definition pat_contentId :: string where
  "pat_contentId = quoted ''contentId'' @ re_colon @ CHR 0x22 # ''([A-Za-z0-9_-]+)'' @ [CHR 0x22]"

definition pat_customState :: string where
  "pat_customState = quoted ''playerState'' @ re_colon @ ''(-?[0-9]+)''"

definition pat_displayName :: string where
  "pat_displayName = quoted ''displayName'' @ re_colon @ CHR 0x22 # ''([^'' @ CHR 0x22 # '']+)'' @ [CHR 0x22]"

definition pat_sessionId :: string where
  "pat_sessionId = quoted ''sessionId'' @ re_colon @ CHR 0x22 # ''([^'' @ CHR 0x22 # '']+)'' @ [CHR 0x22]"

subsection \<open>MEDIA_STATUS\<close>

text \<open>The numbers and states of the status.\<close>

definition read_status :: "env \<Rightarrow> string \<Rightarrow> world \<Rightarrow> (unit \<times> world) option" where
  "read_status E payload w = do {
     (n, w) \<leftarrow> extractNumber pat_duration payload w;
     let w = (case n of None \<Rightarrow> w | Some d \<Rightarrow> w\<lparr>currentDuration := d\<rparr>);
     (n, w) \<leftarrow> extractNumber pat_currentTime payload w;
     let w = (case n of
                None \<Rightarrow> w
              | Some p \<Rightarrow>
                  (let w = w\<lparr>s_currentPosition := p\<rparr>; (now, w) = time E w
                   in w\<lparr>s_lastPositionFetched := of_integer now\<rparr>));
     state \<leftarrow> regexExtract pat_playerState payload;
     let w = (if state \<noteq> [] then w\<lparr>currentlyPlaying := (state = ''PLAYING''), s_currentStatus := state\<rparr> else w);
     session \<leftarrow> regexExtract pat_mediaSessionId payload;
     let w = (if session \<noteq> []
              then (when_verbose (puts (''Got media session '' @ session)) w)\<lparr>mediaSession := session\<rparr>
              else w);
     Some ((), w)
   }"

text \<open>The video, its segments, and the seek when one of them is playing.\<close>

definition update_video :: "env \<Rightarrow> string \<Rightarrow> world \<Rightarrow> (unit \<times> world) option" where
  "update_video E payload w = do {
     videoID \<leftarrow> regexExtract pat_contentId payload;
     let w = when_verbose (puts (''Video id: '' @ [CHR 0x27] @ videoID @ [CHR 0x27])) w;
     if videoID \<noteq> [] \<and> videoID \<noteq> currentVideo w then do {
       (segments, w) \<leftarrow> downloadSegments E videoID w;
       Some ((), w\<lparr>currentSegments := segments, currentVideo := videoID, nextSegmentStart := unset\<rparr>)
     } else Some ((), w)
   }"

definition schedule_skip :: "env \<Rightarrow> world \<Rightarrow> (unit \<times> world) option" where
  "schedule_skip E w =
     (if currentSegments w = [] then Some ((), w)
      else do {
        let (delta, w) = secondsUntilNextSegment E w;
        let w = when_verbose (puts (''time to next segment: '' @ fmt_g delta)) w;
        let w = (if dle (Fin 0) delta
                 then (let (now, w) = time E w in w\<lparr>nextSegmentStart := add (of_integer now) delta\<rparr>)
                 else w);
        maybeSeek E w
      })"

definition skip_ad :: "env \<Rightarrow> string \<Rightarrow> world \<Rightarrow> (unit \<times> world) option" where
  "skip_ad E payload w = do {
     customState \<leftarrow> regexExtract pat_customState payload;
     let w = when_verbose (puts (''Custom player state: '' @ customState)) w;
     if s_adblock w \<and> customState = ''1081'' then do {
       let w = puts '' Playing an ad, attempting to skip'' w;
       let (position, w) = currentPosition E w;
       let position = (if dlt position (Fin 0) then Fin 0 else position);
       let position = add position (Fin 1);
       (_, w) \<leftarrow> sendSimpleMedia E ''STOP'' w;
       (_, w) \<leftarrow> loadMedia E (currentVideo w) position w;
       Some ((), w)
     } else Some ((), w)
   }"

definition media_status :: "env \<Rightarrow> string \<Rightarrow> world \<Rightarrow> (bool \<times> world) option" where
  "media_status E payload w = do {
     (_, w) \<leftarrow> read_status E payload w;
     if \<not> s_youtube w then Some (True, w)
     else do {
       (_, w) \<leftarrow> update_video E payload w;
       (_, w) \<leftarrow> schedule_skip E w;
       (_, w) \<leftarrow> skip_ad E payload w;
       Some (True, w)
     }
   }"

subsection \<open>RECEIVER_STATUS\<close>

definition receiver_status :: "env \<Rightarrow> string \<Rightarrow> world \<Rightarrow> (unit \<times> world) option" where
  "receiver_status E payload w = do {
     displayName \<leftarrow> regexExtract pat_displayName payload;
     sessionId \<leftarrow> regexExtract pat_sessionId payload;
     let w = when_verbose (puts (''app display name: '' @ displayName)) w;
     let w = when_verbose (puts (''session: '' @ sessionId)) w;
     let w = (if sessionId \<noteq> [] then w\<lparr>dest := sessionId\<rparr> else w);
     let w = (if displayName = ''YouTube''
              then when_verbose (puts ''Youtube playing'') (w\<lparr>s_youtube := True\<rparr>)
              else if displayName \<noteq> []
              then w\<lparr>s_youtube := False,
                     s_currentStatus := ''Not youtube: '' @ [CHR 0x27] @ displayName @ [CHR 0x27]\<rparr>
              else w);
     if find_text ''urn:x-cast:com.google.cast.media'' payload \<noteq> None then do {
       let w = when_verbose (puts ''Sending get status for media'') w;
       (_, w) \<leftarrow> sendSimple E MsgConnect NsConnection w;
       (_, w) \<leftarrow> sendSimple E MsgGetStatus NsMedia w;
       Some ((), w)
     } else Some ((), w)
   }"

subsection \<open>handleMessage\<close>

definition from_to :: "cast_message \<Rightarrow> string" where
  "from_to message =
     source_id message @ '' > '' @ destination_id message @ '' ('' @ namespace message @ ''): '' @
     CHR 0x0A # payload_utf8 message"

definition handle_payload :: "env \<Rightarrow> cast_message \<Rightarrow> world \<Rightarrow> (bool \<times> world) option" where
  "handle_payload E message w = do {
     let payload = payload_utf8 message;
     type \<leftarrow> regexExtract pat_type payload;
     let w = (if type \<noteq> ''PING'' \<and> s_verbose w then puts (from_to message) w else w);
     if type = ''CLOSE'' then do {
       (_, w) \<leftarrow> sendSimple E MsgConnect NsConnection (w\<lparr>s_currentStatus := ''Disconnected''\<rparr>);
       Some (True, w)
     }
     else if type = ''INVALID_REQUEST'' then
       Some (False, puts (from_to message) (w\<lparr>s_currentStatus := ''Error''\<rparr>))
     else if type = ''MEDIA_STATUS'' then media_status E payload w
     else if namespace message = ns_strings NsHeartbeat then
       (if type = ''PING'' then do {
          (_, w) \<leftarrow> sendSimple E MsgPong NsHeartbeat w;
          Some (True, w)
        } else Some (True, w))
     else if namespace message = ns_strings NsReceiver then
       (if type = ''RECEIVER_STATUS'' then do {
          (_, w) \<leftarrow> receiver_status E payload w;
          Some (True, w)
        } else Some (True, w))
     else if type \<noteq> ''mdxSessionStatus'' then Some (True, cerr (''Unhandled message type: '' @ type) w)
     else Some (True, w)
   }"

text \<open>A parse that reads outside its buffer is undefined behaviour.\<close>

definition handleMessage :: "env \<Rightarrow> string \<Rightarrow> world \<Rightarrow> (bool \<times> world) option" where
  "handleMessage E inputBuffer w =
     (case cast_parse (env_target E) (bytes_of inputBuffer) of
        Fault \<Rightarrow> None
      | Refused e \<Rightarrow> Some (False, puts ''Parsing message from chromecast failed'' w)
      | Got message \<Rightarrow>
          if payload_utf8 message = [] then Some (True, puts ''No string payload'' w)
          else handle_payload E message w)"

subsection \<open>One connection\<close>

datatype step_result = Again | Return int

text \<open>Up to the \<open>while\<close>: \<open>Return\<close> when the connection does not come up.\<close>

definition loop_start :: "env \<Rightarrow> connection \<Rightarrow> sockaddr_in \<Rightarrow> world \<Rightarrow> (step_result \<times> connection \<times> world) option" where
  "loop_start E c address w = do {
     (ok, c, w) \<leftarrow> connect E c address w;
     if \<not> ok then do {
       let w = cerr (''Failed to connect to '' @ inet_ntoa (sin_addr address)) w;
       Some (Return (errno w), c, w)
     }
     else do {
       let w = when_verbose (puts ''Sending connection message'') w;
       (ok, w) \<leftarrow> sendSimple E MsgConnect NsConnection w;
       if \<not> ok then do {
         let w = puts ''Failed to send connect message'' w;
         Some (Return (errno w), c, w)
       }
       else do {
         let w = puts ''Connected'' w;
         (ok, w) \<leftarrow> sendSimple E MsgGetStatus NsReceiver w;
         if \<not> ok then do {
           let w = puts ''Failed to send getstatus message'' w;
           Some (Return (errno w), c, w)
         }
         else do {
           let (now, w) = time E w;
           Some (Again, c, w\<lparr>s_lastPing := now\<rparr>)
         }
       }
     }
   }"

text \<open>A key was pressed: \<open>False\<close> to stop.\<close>

definition handle_key :: "env \<Rightarrow> world \<Rightarrow> (bool \<times> world) option" where
  "handle_key E w = do {
     let (key, w) = sys E (env_int E) w;
     if is_quit_key key then Some (False, w\<lparr>s_running := False\<rparr>)
     else if key = 32 then
       (if s_currentStatus w = ''PLAYING'' then do {
          (_, w) \<leftarrow> sendSimpleMedia E ''PAUSE'' (puts ''Pausing'' w);
          Some (True, w)
        }
        else if s_currentStatus w = ''PAUSED'' then do {
          (_, w) \<leftarrow> sendSimpleMedia E ''PLAY'' (puts ''Resuming playback'' w);
          Some (True, w)
        }
        else Some (True, w))
     else Some (True, unhandled_key key w)
   }"

text \<open>Nothing happened for a second: \<open>False\<close> when the ping could not be sent.\<close>

definition on_timeout :: "env \<Rightarrow> world \<Rightarrow> (bool \<times> world) option" where
  "on_timeout E w = do {
     let (due, w) = (if dlt (Fin 0) (nextSegmentStart w)
                     then (let (now, w) = time E w in (dle (nextSegmentStart w) (of_integer now), w))
                     else (False, w));
     (_, w) \<leftarrow> (if due then sendSimple E MsgGetStatus NsMedia (w\<lparr>nextSegmentStart := unset\<rparr>)
                 else Some (True, w));
     let (currentTime, w) = time E w;
     if PING_INTERVAL < currentTime - s_lastPing w then do {
       let w = when_verbose (puts (''Sending ping, last ping: '' @ dec_int (s_lastPing w) @
                 '' current time: '' @ dec_int currentTime @ '' delta: '' @
                 dec_int (currentTime - s_lastPing w))) w;
       (ok, w) \<leftarrow> sendSimple E MsgPing NsHeartbeat w;
       if \<not> ok then Some (False, puts ''Failed to send ping, assuming disconnected'' w)
       else do {
         let (now, w) = time E w;
         Some (True, w\<lparr>s_lastPing := now\<rparr>)
       }
     }
     else Some (True, w)
   }"

definition ntohl :: "target \<Rightarrow> u32 \<Rightarrow> u32" where
  "ntohl tg v = (if isbig tg then v else bswap v)"

text \<open>The connection has something to read.\<close>

definition receive :: "env \<Rightarrow> connection \<Rightarrow> world \<Rightarrow> (step_result \<times> connection \<times> world) option" where
  "receive E c w = do {
     (msgLengthBuffer, c, w) \<leftarrow> conn_read E c 4 w;
     if length msgLengthBuffer \<noteq> 4 then
       Some (Return EBADMSG, c, cerr (''Failed to read message size: '' @ [CHR 0x27] @ msgLengthBuffer @ [CHR 0x27]) w)
     else if eof c then Some (Return ECONNRESET, c, puts ''Connection closed'' w)
     else do {
       let msgLength = ntohl (env_target E) (load_int (env_target E) (bytes_of msgLengthBuffer));
       if 64 * 1024 < unat msgLength then
         Some (Return EBADMSG, c, puts (''Message length out of range: '' @ dec_int (sint msgLength)) w)
       else do {
         (response, c, w) \<leftarrow> conn_read E c (uint msgLength) w;
         if length response < unat msgLength then
           Some (Return EBADMSG, c, cerr (''Short read, expected '' @ dec (unat msgLength) @ '' got '' @
             dec (length response)) w)
         else do {
           (ok, w) \<leftarrow> handleMessage E response w;
           if \<not> ok then Some (Return ECONNRESET, c, puts ''Failed to parse message'' w)
           else if eof c then Some (Return ECONNRESET, c, puts ''Disconnected'' w)
           else do {
             let (now, w) = time E w;
             Some (Again, c, w\<lparr>s_lastPing := now\<rparr>)
           }
         }
       }
     }
   }"

text \<open>The body of the \<open>while\<close>, after \<open>select\<close> returned \<open>events\<close>.\<close>

definition loop_body ::
  "env \<Rightarrow> int \<Rightarrow> bool \<Rightarrow> bool \<Rightarrow> connection \<Rightarrow> world \<Rightarrow> (step_result \<times> connection \<times> world) option"
where
  "loop_body E events stdin_ready fd_ready c w =
     (if events < 0 then (let w = perror ''select()'' w in Some (Return (errno w), c, w))
      else if errno w = EINTR then Some (Again, c, w)
      else do {
        (go_on, w) \<leftarrow> (if stdin_ready then handle_key E w else Some (True, w));
        if \<not> go_on then Some (Return 0, c, w)
        else do {
          (alive, w) \<leftarrow> (if events = 0 then on_timeout E w else Some (True, w));
          if \<not> alive then Some (Return ETIMEDOUT, c, w)
          else if \<not> fd_ready then Some (Again, c, w)
          else receive E c w
        }
      })"

definition loop_step :: "env \<Rightarrow> connection \<Rightarrow> world \<Rightarrow> (step_result \<times> connection \<times> world) option" where
  "loop_step E c w =
     (if \<not> (s_running w \<and> \<not> eof c) then Some (Return 0, c, w)
      else do {
        let ((events, stdin_ready, fd_ready), w) = sys E (env_select E) w;
        let (position, w) = currentPosition E w;
        (_, w) \<leftarrow> printProgress position (currentDuration w) w;
        loop_body E events stdin_ready fd_ready c w
      })"

fun loop_run :: "env \<Rightarrow> nat \<Rightarrow> connection \<Rightarrow> world \<Rightarrow> (step_result \<times> connection \<times> world) option" where
  "loop_run E 0 c w = Some (Again, c, w)"
| "loop_run E (Suc n) c w = do {
     (r, c, w) \<leftarrow> loop_step E c w;
     (case r of Again \<Rightarrow> loop_run E n c w | Return ret \<Rightarrow> Some (Return ret, c, w))
   }"

text \<open>\<open>loop\<close>, for at most \<open>n\<close> passes; the connection is destroyed when it returns.\<close>

definition loop :: "env \<Rightarrow> nat \<Rightarrow> sockaddr_in \<Rightarrow> world \<Rightarrow> (step_result \<times> world) option" where
  "loop E n address w = do {
     let w = when_verbose (puts ''Opening connection'') (w\<lparr>dest := []\<rparr>);
     (c, w) \<leftarrow> new_connection E w;
     (r, c, w) \<leftarrow> loop_start E c address w;
     (r, c, w) \<leftarrow> (case r of Again \<Rightarrow> loop_run E n c w | Return ret \<Rightarrow> Some (Return ret, c, w));
     (case r of
        Again \<Rightarrow> Some (Again, w)
      | Return ret \<Rightarrow> do {
          (_, w) \<leftarrow> delete_connection E c w;
          Some (Return ret, w)
        })
   }"

end
