(* ===== verification/Mdns.thy ===== *)
theory Mdns
  imports Connection
begin

text \<open>
  \<open>mdns.h\<close>: finding the device on the local network.

  \<open>parsePacket\<close> walks the labels of the name in a packet with a position that is a \<open>size_t\<close>, but goes
  through an 8-bit \<open>nextPos\<close> at every label: it can go backwards and never end. It is a
  \<open>partial_function\<close>: \<open>None\<close> is a walk without end. \<open>query\<close> is \<open>query_step\<close>, one pass of its
  \<open>do\<close> loop, repeated by \<open>query_run\<close>; the receive buffer \<open>packet\<close> is part of its state, since
  \<open>resize\<close> changes its size for the passes that follow.
\<close>

definition queryHeader :: "byte list" where
  "queryHeader = [0, 0, 0, 0, 0, 1, 0, 0, 0, 0, 0, 0]"

definition queryFooter :: "byte list" where
  "queryFooter = [0, 0x0C, 0, 1]"

definition queryName :: string where
  "queryName = ''_googlecast._tcp.local.''"

subsection \<open>The socket\<close>

text \<open>\<open>setsockopt\<close> or \<open>bind\<close> and its failure branch.\<close>

definition checked :: "env \<Rightarrow> int \<Rightarrow> string \<Rightarrow> (world \<Rightarrow> int \<times> world) \<Rightarrow> world \<Rightarrow> int \<times> world" where
  "checked E d message next w =
     (let (st, w) = sys E (env_int E) w
      in if st < 0 then (- 1, close_fd E d (perror message w)) else next w)"

definition openSocket :: "env \<Rightarrow> world \<Rightarrow> int \<times> world" where
  "openSocket E w =
     (let (d, w) = sys E (env_int E) w
      in if d < 0 then (- 1, perror ''Creating socket failed'' w)
         else checked E d ''Setting SO_BROADCAST failed''
             (checked E d ''Setting SO_REUSEADDR failed''
             (checked E d ''Setting ttl failed''
             (checked E d ''Falied to bind''
             (checked E d '' ! Failed to join multicast group''
               (\<lambda>w. (d, w)))))) w)"

definition sendData :: "env \<Rightarrow> byte list \<Rightarrow> world \<Rightarrow> bool \<times> world" where
  "sendData E data w =
     (let (st, w) = sys E (env_int E) w;
          w = emit (Datagram data) w
      in if st < 0 then (False, perror '' ! Failed to send request'' w) else (True, w))"

definition request_bytes :: "byte list" where
  "request_bytes =
     queryHeader @
     concat (map (\<lambda>component. of_nat (length component) # bytes_of component)
       (stringSplit queryName CHR ''.'')) @
     queryFooter"

definition sendRequest :: "env \<Rightarrow> world \<Rightarrow> bool \<times> world" where
  "sendRequest E w =
     (let data = request_bytes; w = when_verbose (puts '' > Sending request....'') w
      in sendData E data w)"

subsection \<open>Packets\<close>

text \<open>\<open>None\<close> as the text: the packet is invalid.\<close>

partial_function (option) parse_labels :: "byte list \<Rightarrow> nat \<Rightarrow> string \<Rightarrow> (nat \<times> nat \<times> string option) option" where
  "parse_labels data pos hostname =
     (if pos + 2 < length data then
        (let n = data ! pos; pos = pos + 1
         in if n = 0 then Some (pos, 0, Some hostname)
            else let nextPos = (of_nat pos + n :: byte)
                 in if length data \<le> unat nextPos then Some (pos, unat nextPos, None)
                    else parse_labels data (unat nextPos)
                      (hostname @ string_of (take (unat n) (drop pos data)) @ ''.''))
      else Some (pos, 0, Some hostname))"

definition parsePacket :: "byte list \<Rightarrow> world \<Rightarrow> (string \<times> world) option" where
  "parsePacket data w =
     (let minSize = length queryHeader + 4
      in if length data < minSize then
           Some ('''', when_verbose (cerr (''Packet too small ('' @ dec (length data) @ '' bytes)'')) w)
         else
           let hasResponse = (\<not> (data ! 6 = 0 \<and> data ! 7 = 0))
           in if \<not> s_verbose w \<and> \<not> hasResponse then Some ('''', w)
              else do {
                (pos, nextPos, hostname) \<leftarrow> parse_labels data (length queryHeader) '''';
                (case hostname of
                   None \<Rightarrow>
                     Some ('''', when_verbose (cerr ('' ! Invalid packet, next pos out of range ('' @ dec nextPos @
                       '' max: '' @ dec (length data) @ '')'')) w)
                 | Some hostname \<Rightarrow>
                     (let w = (if s_verbose w \<and> pos + length queryFooter \<noteq> length data
                               then puts (''Failed to parse entire packet ('' @ dec pos @ ''/'' @ dec (length data) @
                                 ''), hostname: '' @ hostname) w
                               else w)
                      in if \<not> hasResponse then
                           Some ('''', when_verbose (puts
                             ('' - Packet with no query response (probably another request) for '' @ hostname)) w)
                         else Some (hostname, w)))
              })"

subsection \<open>Waiting for an answer\<close>

record query_state =
  packet_size :: nat
  endTime :: int
  pingTries :: int
  found_address :: sockaddr_in

datatype query_result = Waiting | Found bool

definition AF_INET :: int where "AF_INET = 2"

definition spinner :: string where
  "spinner = [CHR ''-'', CHR 0x5C, CHR ''|'', CHR ''/'', CHR ''-'', CHR 0x5C, CHR ''|'', CHR ''/'']"

definition show_spinner :: "int \<Rightarrow> world \<Rightarrow> world" where
  "show_spinner tries w =
     (let w = w\<lparr>spinnerPos := of_nat ((unat (spinnerPos w) + 1) mod length spinner)\<rparr>
      in out (spinner ! unat (spinnerPos w) # '' Waiting for response'' @
           replicate (nat (tries mod 10)) CHR ''.'' @ erase_line) w)"

text \<open>\<open>recvfrom\<close> gave \<open>data\<close>, from an address of family \<open>family\<close>.\<close>

definition on_packet ::
  "env \<Rightarrow> string \<Rightarrow> int \<Rightarrow> sockaddr_in \<Rightarrow> query_state \<Rightarrow> world \<Rightarrow> (query_result \<times> query_state \<times> world) option"
where
  "on_packet E data family from qs w =
     (if family \<noteq> AF_INET then
        Some (Waiting, qs, cerr ('' ! Got wrong family, not IPv4 '' @ dec_int family) w)
      else do {
        let qs = qs\<lparr>found_address := from\<rparr>;
        let w = when_verbose (puts '' < Got response'') w;
        let qs = qs\<lparr>packet_size := length data\<rparr>;
        (name, w) \<leftarrow> parsePacket (bytes_of data) w;
        if name = [] then Some (Waiting, qs, w)
        else if name \<noteq> queryName then
          Some (Waiting, qs, when_verbose (cerr ('' - Got wrong name '' @ [CHR 0x27] @ name @ [CHR 0x27] @ '' from '' @
            inet_ntoa (sin_addr from))) w)
        else Some (Found True, qs, w)
      })"

definition query_events ::
  "env \<Rightarrow> bool \<Rightarrow> bool \<Rightarrow> query_state \<Rightarrow> world \<Rightarrow> (query_result \<times> query_state \<times> world) option"
where
  "query_events E stdin_ready fd_ready qs w =
     (let (key, w) = (if stdin_ready then sys E (env_int E) w else (0, w))
      in if stdin_ready \<and> is_quit_key key then Some (Found False, qs, puts ''Aborted'' w)
         else let w = (if stdin_ready then unhandled_key key w else w)
         in if \<not> fd_ready then Some (Waiting, qs, w)
         else let (answer, w) = sys E (\<lambda>t. env_recvfrom E t (packet_size qs)) w
         in case answer of
           Inl code \<Rightarrow> Some (Found False, qs, perror '' ! Failed to read packet'' w)
         | Inr (data, family, from) \<Rightarrow> on_packet E data family from qs w)"

definition query_step :: "env \<Rightarrow> query_state \<Rightarrow> world \<Rightarrow> (query_result \<times> query_state \<times> world) option" where
  "query_step E qs w =
     (let (now, w) = time E w
      in if endTime qs < now then
           let w = when_verbose (puts (erase_line @ '' - Timeout waiting for mdns response, sending a new'')) w;
               (_, w) = sendRequest E w;
               (now, w) = time E w
           in Some (Waiting, qs\<lparr>endTime := now + 10, pingTries := pingTries qs + 1\<rparr>, w)
         else let ((st, stdin_ready, fd_ready), w) = sys E (env_select E) w
         in if errno w = EINTR then Some (Waiting, qs, w)
         else if st = 0 then Some (Waiting, qs, show_spinner (pingTries qs) w)
         else if st < 0 then
           Some (Waiting, qs, if errno w \<noteq> EINTR then perror '' ! Error while waiting to read'' w else w)
         else query_events E stdin_ready fd_ready qs w)"

text \<open>At most \<open>n\<close> passes; \<open>Waiting\<close> when they are used up. \<open>continue\<close> in a \<open>do\<close> loop goes to its
  condition.\<close>

fun query_run :: "env \<Rightarrow> nat \<Rightarrow> query_state \<Rightarrow> world \<Rightarrow> (query_result \<times> query_state \<times> world) option" where
  "query_run E 0 qs w = Some (Waiting, qs, w)"
| "query_run E (Suc n) qs w = do {
     (r, qs, w) \<leftarrow> query_step E qs w;
     (case r of
        Found b \<Rightarrow> Some (Found b, qs, w)
      | Waiting \<Rightarrow> if s_running w then query_run E n qs w else Some (Found False, qs, w))
   }"

definition query :: "env \<Rightarrow> nat \<Rightarrow> sockaddr_in \<Rightarrow> world \<Rightarrow> (query_result \<times> sockaddr_in \<times> world) option" where
  "query E n address w = do {
     let (now, w) = time E w;
     (r, qs, w) \<leftarrow> query_run E n
        \<lparr>packet_size = 512, endTime = now + 10, pingTries = 0, found_address = address\<rparr> w;
     Some (r, found_address qs, w)
   }"

text \<open>\<open>findChromecast\<close>: 1 and 2, returned as \<open>bool\<close>, are \<open>true\<close>.\<close>

definition findChromecast :: "env \<Rightarrow> nat \<Rightarrow> sockaddr_in \<Rightarrow> world \<Rightarrow> (query_result \<times> sockaddr_in \<times> world) option" where
  "findChromecast E n address w =
     (let (d, w) = openSocket E w
      in if d < 0 then Some (Found True, address, w)
         else let (ok, w) = sendRequest E w
         in if \<not> ok then Some (Found True, address, w)
         else do {
           (r, address, w) \<leftarrow> query E n address w;
           (case r of
              Waiting \<Rightarrow> Some (Waiting, address, w)
            | Found found \<Rightarrow>
                (let w = close_fd E d w
                 in if \<not> found then
                      Some (Found False, address,
                        if errno w \<noteq> 0 then perror ''Failed to find chromecast'' w else w)
                    else let address = address\<lparr>sin_port := 8009\<rparr>
                    in Some (Found True, address, puts (''Found chromecast: '' @ inet_ntoa (sin_addr address)) w)))
         })"

subsection \<open>Walking the labels\<close>

text \<open>A length of 255 right after the header leads back to itself: \<open>13 + 255\<close> is 12 in 8 bits.\<close>

lemma parse_labels_moves:
  assumes "parse_labels data pos hostname = Some y"
  shows "pos = 12 \<Longrightarrow> 16 \<le> length data \<Longrightarrow> data ! 12 \<noteq> 0xFF"
proof -
  have "pos = 12 \<longrightarrow> 16 \<le> length data \<longrightarrow> data ! 12 \<noteq> 0xFF"
    by (rule parse_labels.raw_induct [OF _ assms,
          where P = "\<lambda>data pos hostname y. pos = 12 \<longrightarrow> 16 \<le> length data \<longrightarrow> data ! 12 \<noteq> 0xFF"])
      (auto simp: Let_def split: if_splits)
  then show "pos = 12 \<Longrightarrow> 16 \<le> length data \<Longrightarrow> data ! 12 \<noteq> 0xFF" by blast
qed

definition label_bytes :: "string \<Rightarrow> byte list" where
  "label_bytes l = of_nat (length l) # bytes_of l"

definition host_of :: "string list \<Rightarrow> string" where
  "host_of ls = concat (map (\<lambda>l. l @ ''.'') ls)"

lemma parse_labels_name:
  assumes "list_all (\<lambda>l. l \<noteq> []) ls" and "length pre + length (concat (map label_bytes ls)) < 256"
    and "2 \<le> length rest"
  shows "\<exists>pos n. parse_labels (pre @ concat (map label_bytes ls) @ 0 # rest) (length pre) hostname =
    Some (pos, n, Some (hostname @ host_of ls))"
  using assms(1,2)
proof (induction ls arbitrary: pre hostname)
  case Nil
  then show ?case using assms(3) by (simp add: parse_labels.simps nth_append host_of_def Let_def)
next
  case (Cons l ls)
  let ?data = "pre @ concat (map label_bytes (l # ls)) @ 0 # rest"
  let ?pre = "pre @ label_bytes l"
  have len: "length l < 256" "length pre + 1 + length l < 256" "0 < length l"
    using Cons.prems by (auto simp: label_bytes_def)
  have n: "?data ! length pre = of_nat (length l)" "(of_nat (length l) :: byte) \<noteq> 0"
    using len by (simp_all add: nth_append label_bytes_def unat_eq_0 [symmetric] unat_of_nat)
  have next_pos: "unat (of_nat (length pre + 1) + of_nat (length l) :: byte) = length ?pre"
    unfolding of_nat_add [symmetric] unat_of_nat using len(2) by (simp add: label_bytes_def)
  have data: "?data = ?pre @ concat (map label_bytes ls) @ 0 # rest" by simp
  have name: "string_of (take (unat (of_nat (length l) :: byte)) (drop (length pre + 1) ?data)) = l"
    using len(1) by (simp add: label_bytes_def unat_of_nat)
  have "parse_labels ?data (length pre) hostname =
      parse_labels ?data (length ?pre) (hostname @ l @ ''.'')"
    by (subst parse_labels.simps, unfold Let_def n(1) next_pos name)
      (use n(2) assms(3) in \<open>auto simp add: label_bytes_def\<close>)
  moreover have "\<exists>pos n. parse_labels (?pre @ concat (map label_bytes ls) @ 0 # rest) (length ?pre) (hostname @ l @ ''.'') =
      Some (pos, n, Some ((hostname @ l @ ''.'') @ host_of ls))"
    using Cons.IH [of ?pre "hostname @ l @ ''.''"] Cons.prems by simp
  ultimately show ?case unfolding data by (simp add: host_of_def)
qed

definition name_bytes :: "string \<Rightarrow> byte list" where
  "name_bytes name = concat (map label_bytes (stringSplit name CHR ''.''))"

lemma host_of_join: "join CHR ''.'' (ls @ [[]]) = host_of ls"
proof (induction ls)
  case (Cons l ls)
  then show ?case by (cases "ls @ [[]]") (simp_all add: host_of_def)
qed (simp add: host_of_def)

lemma name_bytes_host:
  assumes "list_all (\<lambda>l. CHR ''.'' \<notin> set l) ls"
  shows "name_bytes (host_of ls) = concat (map label_bytes ls) @ [0]"
proof -
  have "stringSplit (host_of ls) CHR ''.'' = ls @ [[]]"
    using stringSplit_unique [of "ls @ [[]]" "CHR ''.''" "host_of ls"] assms host_of_join [of ls] by simp
  then show ?thesis by (simp add: name_bytes_def label_bytes_def)
qed

lemma request_bytes_name: "request_bytes = queryHeader @ name_bytes queryName @ queryFooter"
proof -
  have "label_bytes = (\<lambda>component. of_nat (length component) # bytes_of component)"
    by (rule ext) (simp add: label_bytes_def)
  then show ?thesis by (simp add: request_bytes_def name_bytes_def)
qed

lemma length_queryHeader: "length queryHeader = 12"
  by (simp add: queryHeader_def)

lemma parsePacket_name:
  assumes "list_all (\<lambda>l. l \<noteq> [] \<and> CHR ''.'' \<notin> set l) ls" and "length header = 12"
    and "header ! 6 \<noteq> 0 \<or> header ! 7 \<noteq> 0" and "12 + length (concat (map label_bytes ls)) < 256" and "3 \<le> length rest"
  shows "\<exists>w'. parsePacket (header @ name_bytes (host_of ls) @ rest) w = Some (host_of ls, w') \<and> core w' = core w"
proof -
  have ls: "list_all (\<lambda>l. l \<noteq> []) ls" "list_all (\<lambda>l. CHR ''.'' \<notin> set l) ls"
    using assms(1) by (simp_all add: list_all_iff)
  let ?data = "header @ concat (map label_bytes ls) @ 0 # rest"
  obtain pos n where walk: "parse_labels ?data (length queryHeader) [] = Some (pos, n, Some (host_of ls))"
    using parse_labels_name [OF ls(1), of header rest "[]"] assms(2,4,5) by (auto simp: length_queryHeader)
  define data where "data = ?data"
  have eq: "header @ name_bytes (host_of ls) @ rest = data" by (simp add: name_bytes_host [OF ls(2)] data_def)
  have "\<not> length data < length queryHeader + 4" using assms(2,5) by (simp add: length_queryHeader data_def)
  moreover have "\<not> (data ! 6 = 0 \<and> data ! 7 = 0)" using assms(2,3) by (simp add: nth_append data_def)
  ultimately show ?thesis using walk unfolding eq parsePacket_def Let_def data_def [symmetric] by simp
qed

lemma parsePacket_short: "length data < 16 \<Longrightarrow> \<exists>w'. parsePacket data w = Some ([], w')"
  by (simp add: parsePacket_def queryHeader_def Let_def)

subsection \<open>Waiting\<close>

lemma on_packet_found:
  assumes "on_packet E data family from qs w = Some (Found b, qs', w')"
  shows "b \<and> family = AF_INET \<and> found_address qs' = from \<and>
    (\<exists>v v'. parsePacket (bytes_of data) v = Some (queryName, v'))"
  using assms by (auto simp: on_packet_def Option.bind_eq_Some_conv Let_def split: if_splits)

lemma on_packet_size:
  assumes "on_packet E data family from qs w = Some (r, qs', w')"
  shows "packet_size qs' = (if family = AF_INET then length data else packet_size qs)"
  using assms by (auto simp: on_packet_def Option.bind_eq_Some_conv Let_def split: if_splits)

text \<open>A step that is not a packet leaves the buffer as it is and finds nothing.\<close>

lemma query_step_cases:
  assumes "query_step E qs w = Some (r, qs', w')"
  shows "r \<noteq> Found True \<and> packet_size qs' = packet_size qs \<or>
    (\<exists>t data family from v. env_recvfrom E t (packet_size qs) = Inr (data, family, from) \<and>
      on_packet E data family from qs v = Some (r, qs', w'))"
proof -
  have events: "r \<noteq> Found True \<and> packet_size qs' = packet_size qs \<or>
    (\<exists>t data family from v. env_recvfrom E t (packet_size qs) = Inr (data, family, from) \<and>
      on_packet E data family from qs v = Some (r, qs', w'))"
    if "query_events E sr fr qs v = Some (r, qs', w')" for sr fr v
  proof -
    obtain key u where "(if sr then sys E (env_int E) v else (0, v)) = (key, u)"
      by (cases "if sr then sys E (env_int E) v else (0, v)")
    moreover obtain answer x where x: "sys E (\<lambda>t. env_recvfrom E t (packet_size qs))
        (if sr then unhandled_key key u else u) = (answer, x)"
      by (cases "sys E (\<lambda>t. env_recvfrom E t (packet_size qs)) (if sr then unhandled_key key u else u)")
    moreover have "\<exists>t. answer = env_recvfrom E t (packet_size qs)" using x by (auto simp: sys_def)
    ultimately show ?thesis
      using that unfolding query_events_def Let_def by (auto split: if_splits sum.splits)
  qed
  show ?thesis
    using assms unfolding query_step_def Let_def
    by (auto split: if_splits prod.splits dest!: events)
qed

lemma openSocket_fails: "env_int E (tick w) < 0 \<Longrightarrow> \<exists>w'. openSocket E w = (- 1, w') \<and> core w' = core w"
  using core_sys [of E "env_int E" w] by (cases "sys E (env_int E) w") (auto simp: openSocket_def sys_def perror_def)

subsection \<open>An example\<close>

definition answer_header :: "byte list" where
  "answer_header = [0, 0, 0x84, 0, 0, 1, 0, 1, 0, 0, 0, 0]"

text \<open>An outside for the examples where every datagram received is \<open>packet\<close>.\<close>

definition talking_env :: "byte list \<Rightarrow> env" where
  "talking_env packet = (still_env 0 0)\<lparr>env_select := (\<lambda>_. (1, False, True)),
     env_recvfrom := (\<lambda>_ size. Inr (string_of (take size packet), AF_INET, \<lparr>sin_port = 5353, sin_addr = (10, 0, 0, 2)\<rparr>))\<rparr>"

definition example_query :: "nat \<Rightarrow> query_state" where
  "example_query room = \<lparr>packet_size = room, endTime = 10, pingTries = 0,
     found_address = \<lparr>sin_port = 0, sin_addr = (0, 0, 0, 0)\<rparr>\<rparr>"

lemma talking_step:
  "\<exists>v. query_step (talking_env packet) (example_query room) linked_world =
     on_packet (talking_env packet) (string_of (take room packet)) AF_INET
       \<lparr>sin_port = 5353, sin_addr = (10, 0, 0, 2)\<rparr> (example_query room) v \<and> s_verbose v = False \<and> s_running v"
  by (rule exI [of _ "linked_world\<lparr>tick := Suc (Suc (Suc 0))\<rparr>"])
    (simp add: query_step_def query_events_def time_def sys_def talking_env_def still_env_def example_query_def
      linked_world_def EINTR_def)

subsection \<open>Properties\<close>

text \<open>C11. The program reads the names it writes: a packet of any header that announces an answer, a name of
  labels without dots, encoded as \<open>sendRequest\<close> encodes its own, and at least three more bytes is parsed
  to that name, if the name ends below byte 256.\<close>

theorem parsePacket_reads_name:
  assumes "list_all (\<lambda>l. l \<noteq> [] \<and> CHR ''.'' \<notin> set l) ls" and "length header = 12"
    and "header ! 6 \<noteq> 0 \<or> header ! 7 \<noteq> 0" and "12 + length (concat (map label_bytes ls)) < 256" and "3 \<le> length rest"
  shows "(\<exists>w'. parsePacket (header @ name_bytes (host_of ls) @ rest) w = Some (host_of ls, w') \<and> core w' = core w) \<and>
    request_bytes = queryHeader @ name_bytes (host_of [''_googlecast'', ''_tcp'', ''local'']) @ queryFooter"
proof -
  have "host_of [''_googlecast'', ''_tcp'', ''local''] = queryName" by (simp add: host_of_def queryName_def)
  then show ?thesis using parsePacket_name [OF assms] request_bytes_name by simp
qed

theorem parsePacket_reads_name_witness:
  "\<exists>w'. parsePacket (answer_header @ name_bytes queryName @ queryFooter) linked_world = Some (queryName, w')"
proof -
  have "host_of [''_googlecast'', ''_tcp'', ''local''] = queryName" by (simp add: host_of_def queryName_def)
  then show ?thesis
    using parsePacket_reads_name [of "[''_googlecast'', ''_tcp'', ''local'']" answer_header queryFooter linked_world]
    by (simp add: answer_header_def queryFooter_def label_bytes_def) blast
qed

text \<open>C33. A packet of 16 bytes or more that announces an answer and whose name begins with a length of 255
  makes \<open>parsePacket\<close> walk in a circle for ever: the next position is computed in 8 bits, and is the one
  it comes from. Any machine that can send a datagram to the program can stop it this way.\<close>

theorem parsePacket_never_returns:
  assumes "16 \<le> length data" and "data ! 12 = 0xFF" and "data ! 6 \<noteq> 0 \<or> data ! 7 \<noteq> 0"
  shows "parsePacket data w = None"
proof -
  have "parse_labels data 12 [] = None"
    using parse_labels_moves [of data 12 "[]"] assms(1,2) by (cases "parse_labels data 12 []") auto
  then show ?thesis
    using assms(1,3) unfolding parsePacket_def Let_def length_queryHeader by simp
qed

theorem parsePacket_never_returns_witness:
  "parsePacket (answer_header @ [0xFF, 0, 0, 0]) linked_world = None"
  by (rule parsePacket_never_returns) (simp_all add: answer_header_def)

text \<open>C12. The address found is that of an answer: when the search ends with \<open>true\<close>, a packet was received
  over IPv4 whose name is the one asked for, and the address is the one it came from.\<close>

theorem query_finds_only_answers:
  assumes "query_run E n qs w = Some (Found True, qs', w')"
  shows "\<exists>t size data v v'. env_recvfrom E t size = Inr (data, AF_INET, found_address qs') \<and>
    parsePacket (bytes_of data) v = Some (queryName, v')"
  using assms
proof (induction n arbitrary: qs w)
  case (Suc n)
  then obtain r qs1 w1 where step: "query_step E qs w = Some (r, qs1, w1)"
    by (auto simp: Option.bind_eq_Some_conv)
  show ?case
  proof (cases r)
    case Waiting
    then show ?thesis using Suc step by (auto split: if_splits)
  next
    case (Found b)
    then have "query_step E qs w = Some (Found True, qs', w')" using Suc.prems step by simp
    from query_step_cases [OF this] obtain t data family addr v where
      "env_recvfrom E t (packet_size qs) = Inr (data, family, addr)"
      "on_packet E data family addr qs v = Some (Found True, qs', w')" by blast
    then show ?thesis using on_packet_found [of E data family addr qs v True qs' w'] by blast
  qed
qed simp

theorem query_finds_only_answers_witness:
  "\<exists>qs' w' t size data. query_run (talking_env (answer_header @ name_bytes queryName @ queryFooter)) 1
      (example_query 512) linked_world = Some (Found True, qs', w') \<and>
    env_recvfrom (talking_env (answer_header @ name_bytes queryName @ queryFooter)) t size =
      Inr (data, AF_INET, found_address qs')"
proof -
  let ?ls = "[''_googlecast'', ''_tcp'', ''local'']"
  define packet where "packet = answer_header @ name_bytes queryName @ queryFooter"
  have host: "host_of ?ls = queryName" by (simp add: host_of_def queryName_def)
  then have name: "\<exists>v'. parsePacket packet v = Some (queryName, v')" for v
    using parsePacket_name [of ?ls answer_header queryFooter v]
    by (simp add: answer_header_def queryFooter_def label_bytes_def packet_def) blast
  have "length packet \<le> 512"
    unfolding packet_def host [symmetric]
    by (simp add: name_bytes_host label_bytes_def answer_header_def queryFooter_def)
  then obtain v where v: "query_step (talking_env packet) (example_query 512) linked_world =
      on_packet (talking_env packet) (string_of packet) AF_INET \<lparr>sin_port = 5353, sin_addr = (10, 0, 0, 2)\<rparr>
        (example_query 512) v"
    using talking_step [of packet 512] by auto
  have "queryName \<noteq> []" by (simp add: queryName_def)
  then have "\<exists>qs' w'. on_packet (talking_env packet) (string_of packet) AF_INET
      \<lparr>sin_port = 5353, sin_addr = (10, 0, 0, 2)\<rparr> (example_query 512) v = Some (Found True, qs', w')"
    using name [of "when_verbose (puts '' < Got response'') v"] by (auto simp: on_packet_def)
  then obtain qs' w' where run: "query_run (talking_env packet) 1 (example_query 512) linked_world = Some (Found True, qs', w')"
    using v by auto
  from query_finds_only_answers [OF run] run show ?thesis unfolding packet_def by blast
qed



text \<open>C37. Without a socket, or when the request cannot be sent, \<open>findChromecast\<close> returns \<open>true\<close>: its error codes
  1 and 2 are converted to \<open>bool\<close>. The address is not set, and \<open>main\<close> goes on to connect to it; a
  socket opened before the failed request is not closed.\<close>

theorem findChromecast_hides_failure:
  assumes "fst (openSocket E w) < 0 \<or> \<not> fst (sendRequest E (snd (openSocket E w)))"
  shows "\<exists>w'. findChromecast E n address w = Some (Found True, address, w') \<and>
    (\<forall>d. 0 \<le> fst (openSocket E w) \<longrightarrow> Closed_socket d \<notin> set (drop (length (trace (snd (openSocket E w)))) (trace w')))"
proof -
  obtain d v where o: "openSocket E w = (d, v)" by (cases "openSocket E w")
  obtain ok u where s: "sendRequest E v = (ok, u)" by (cases "sendRequest E v")
  have "Closed_socket k \<notin> set (drop (length (trace v)) (trace u))" for k
    using s by (auto simp: sendRequest_def sendData_def Let_def sys_def emit_def puts_def perror_def signalHandler_def
        split: if_splits option.splits)
  then show ?thesis using assms o s by (auto simp: findChromecast_def)
qed

theorem findChromecast_hides_failure_witness:
  "\<exists>w'. findChromecast (still_env 0 (- 1)) 5 \<lparr>sin_port = 0, sin_addr = (0, 0, 0, 0)\<rparr> linked_world =
    Some (Found True, \<lparr>sin_port = 0, sin_addr = (0, 0, 0, 0)\<rparr>, w')"
proof -
  have "fst (openSocket (still_env 0 (- 1)) linked_world) < 0"
    using openSocket_fails [of "still_env 0 (- 1)" linked_world] by (auto simp: still_env_def)
  with findChromecast_hides_failure show ?thesis by blast
qed

end
