(* ===== verification/Main_Program.thy ===== *)
theory Main_Program
  imports Loop Mdns
begin

text \<open>
  \<open>main.cc\<close>: the options, and the loop that finds a device and talks to it until the program is
  stopped.

  The terminal's settings and the installation of the signal handlers are calls to the outside without
  a result the program looks at. The categories are a list in the source's order; the
  \<open>unordered_map\<close> of the program may list them in another one, which shows in the usage text only.
\<close>

definition categories :: "(string \<times> string) list" where
  "categories =
     [(''--sponsor'', ''Paid promotion, paid referrals and direct advertisements.''),
      (''--selfpromo'', ''Unpaid or self promotion. Includes sections about merchandise, donations, or information about who they collaborated with.''),
      (''--interaction'', ''Reminders to like, subscribe or follow them in the middle of content.''),
      (''--intro'', ''An interval without actual content. Pauses, static frames, repeating animations. Not transitions containing information.''),
      (''--outro'', ''Credits or when the YouTube endcards appear. Not conclusions with information.''),
      (''--preview'', ''Quick recap of previous episodes, or a preview of what'' @ [CHR 0x27] @
         ''s coming up later in the current video. Edited together clips, not spoken summaries.''),
      (''--music_offtopic'', ''Only in music videos. Non-music sections of music videos that aren'' @ [CHR 0x27] @
         ''t already covered by another category.'')]"

text \<open>\<open>s_categories\<close> is a \<open>std::set\<close>: its elements in order, each once.\<close>

definition add_category :: "string \<Rightarrow> world \<Rightarrow> world" where
  "add_category c w = w\<lparr>s_categories := insort_insert c (s_categories w)\<rparr>"

definition usage :: "string \<Rightarrow> world \<Rightarrow> world" where
  "usage prog w =
     (let w = puts (''Usage: '' @ prog @ '' [-a|--adblock] [-v|--verbose] [--all-categories]'') w;
          w = puts ''You may also specify which categories you want to skip, defaults to just sponsors:'' w;
          w = fold (\<lambda>category. puts (''  '' @ fst category @ '': '' @ snd category)) categories w
      in puts (CHR 0x0A # ''--adblock is basically untested and might not work, hence not on by default'') w)"

text \<open>\<open>False\<close>: the program exits with \<open>EINVAL\<close>.\<close>

fun parse_args :: "string \<Rightarrow> string list \<Rightarrow> world \<Rightarrow> bool \<times> world" where
  "parse_args prog [] w = (True, w)"
| "parse_args prog (arg # args) w =
     (if arg = ''-v'' \<or> arg = ''--verbose'' then parse_args prog args (w\<lparr>s_verbose := True\<rparr>)
      else if arg = ''--all-categories'' then
        parse_args prog args (fold (\<lambda>category. add_category (drop 2 (fst category))) categories w)
      else if arg = ''-a'' \<or> arg = ''--adblock'' then parse_args prog args (w\<lparr>s_adblock := True\<rparr>)
      else if arg \<in> set (map fst categories) then parse_args prog args (add_category (drop 2 arg) w)
      else (False, usage prog w))"

definition show_categories :: "world \<Rightarrow> world" where
  "show_categories w =
     (if s_categories w = [] then w
      else puts [] (fold (\<lambda>category. out (category @ '' '')) (s_categories w)
        (out ''  Skipping these categories: '' w)))"

definition no_address :: sockaddr_in where
  "no_address = \<lparr>sin_port = 0, sin_addr = (0, 0, 0, 0)\<rparr>"

text \<open>One pass of the \<open>while\<close> of \<open>main\<close>, given the \<open>ret\<close> of the one before. The answer is \<open>Again\<close>
  with the new \<open>ret\<close>, \<open>Return\<close> after the \<open>break\<close>; \<open>None\<close> in its place when \<open>n\<close> passes of one of the
  inner loops were not enough.\<close>

definition main_step :: "env \<Rightarrow> nat \<Rightarrow> int \<Rightarrow> world \<Rightarrow> ((step_result \<times> int) option \<times> world) option" where
  "main_step E n ret w = do {
     let w = w\<lparr>s_currentPosition := unset, nextSegmentStart := unset, s_lastPositionFetched := unset,
               currentVideo := [], mediaSession := [], dest := []\<rparr>;
     let w = (if ret \<noteq> 0
              then emit (Slept 10) (snd (sys E (env_int E) (puts ''Disconnected, sleeping and re-connecting'' w)))
              else w);
     (found, address, w) \<leftarrow> findChromecast E n no_address w;
     (case found of
        Waiting \<Rightarrow> Some (None, w)
      | Found False \<Rightarrow> Some (Some (Return ENOENT, ENOENT), w)
      | Found True \<Rightarrow> do {
          let w = out (CHR 0x1B # ''[?25l'') w;
          (r, w) \<leftarrow> loop E n address (w\<lparr>s_currentStatus := ''Connecting...''\<rparr>);
          (case r of
             Again \<Rightarrow> Some (None, w)
           | Return ret \<Rightarrow> Some (Some (Again, ret), w))
        })
   }"

text \<open>At most \<open>m\<close> passes of \<open>main\<close>'s loop, with \<open>n\<close> for those inside; \<open>None\<close> when that is not enough.\<close>

fun main_run :: "env \<Rightarrow> nat \<Rightarrow> nat \<Rightarrow> int \<Rightarrow> world \<Rightarrow> (int option \<times> world) option" where
  "main_run E n 0 ret w = (if s_running w then Some (None, w) else Some (Some ret, w))"
| "main_run E n (Suc m) ret w =
     (if \<not> s_running w then Some (Some ret, w)
      else do {
        (r, w) \<leftarrow> main_step E n ret w;
        (case r of
           None \<Rightarrow> Some (None, w)
         | Some (Return _, ret) \<Rightarrow> Some (Some ret, w)
         | Some (Again, ret) \<Rightarrow> main_run E n m ret w)
      })"

definition initial_world :: world where
  "initial_world =
     \<lparr>s_running = True, s_verbose = False, s_adblock = False, s_youtube = False,
      currentSegments = [], nextSegmentStart = unset, currentVideo = [], s_currentPosition = unset,
      currentDuration = unset, s_lastPositionFetched = unset, currentlyPlaying = False, s_lastSeek = 0,
      s_lastPing = 0, s_currentStatus = [], s_categories = [], dest = [], mediaSession = [],
      s_requestId = 1, spinnerPos = 0, ssl = no_symbols, errno = 0, tick = 0, trace = []\<rparr>"

text \<open>Three signal handlers, \<open>tcgetattr\<close> and \<open>tcsetattr\<close>.\<close>

definition prepare_terminal :: "env \<Rightarrow> world \<Rightarrow> world" where
  "prepare_terminal E w = ((\<lambda>w. snd (sys E (env_int E) w)) ^^ 5) w"

definition restore_terminal :: "env \<Rightarrow> world \<Rightarrow> world" where
  "restore_terminal E w = snd (sys E (env_int E) (out (CHR 0x1B # ''[?25h'') w))"

definition main_program ::
  "loader \<Rightarrow> env \<Rightarrow> nat \<Rightarrow> nat \<Rightarrow> string \<Rightarrow> string list \<Rightarrow> (int option \<times> world) option"
where
  "main_program L E n m prog args =
     (case initialize L (no_symbols, []) of
        (False, _) \<Rightarrow> Some (Some 1, initial_world)
      | (True, ext, _) \<Rightarrow>
          (case parse_args prog args (initial_world\<lparr>ssl := ext\<rparr>) of
             (False, w) \<Rightarrow> Some (Some EINVAL, w)
           | (True, w) \<Rightarrow> do {
               let w = prepare_terminal E (show_categories w);
               (ret, w) \<leftarrow> main_run E n m 0 w;
               Some (ret, if ret = None then w else restore_terminal E w)
             }))"

subsection \<open>Options\<close>

definition known_option :: "string \<Rightarrow> bool" where
  "known_option a \<longleftrightarrow> a \<in> {''-v'', ''--verbose'', ''--all-categories'', ''-a'', ''--adblock''} \<union> set (map fst categories)"

definition chosen :: "string list \<Rightarrow> string set" where
  "chosen args = {drop 2 a |a. a \<in> set (map fst categories) \<and> (a \<in> set args \<or> ''--all-categories'' \<in> set args)}"

lemma add_category_simps [simp]:
  "set (s_categories (add_category c w)) = insert c (set (s_categories w))"
  "sorted (s_categories w) \<Longrightarrow> sorted (s_categories (add_category c w))"
  "distinct (s_categories w) \<Longrightarrow> distinct (s_categories (add_category c w))"
  "s_verbose (add_category c w) = s_verbose w" "s_adblock (add_category c w) = s_adblock w"
  "trace (add_category c w) = trace w"
  by (auto simp: add_category_def set_insort_insert sorted_insort_insert distinct_insort_insert)

lemma fold_add_category [simp]:
  "set (s_categories (fold (\<lambda>c. add_category (f c)) cs w)) = f ` set cs \<union> set (s_categories w)"
  "sorted (s_categories w) \<Longrightarrow> sorted (s_categories (fold (\<lambda>c. add_category (f c)) cs w))"
  "distinct (s_categories w) \<Longrightarrow> distinct (s_categories (fold (\<lambda>c. add_category (f c)) cs w))"
  "s_verbose (fold (\<lambda>c. add_category (f c)) cs w) = s_verbose w"
  "s_adblock (fold (\<lambda>c. add_category (f c)) cs w) = s_adblock w"
  "trace (fold (\<lambda>c. add_category (f c)) cs w) = trace w"
  by (induction cs arbitrary: w) auto

lemma option_names:
  "''-v'' \<notin> set (map fst categories)" "''--verbose'' \<notin> set (map fst categories)"
  "''-a'' \<notin> set (map fst categories)" "''--adblock'' \<notin> set (map fst categories)"
  "''--all-categories'' \<notin> set (map fst categories)"
  by (simp_all add: categories_def)

lemma chosen_Cons:
  "a = ''--all-categories'' \<Longrightarrow> chosen (a # args) = drop 2 ` set (map fst categories)"
  "a \<in> set (map fst categories) \<Longrightarrow> chosen (a # args) = insert (drop 2 a) (chosen args)"
  "a \<notin> set (map fst categories) \<Longrightarrow> a \<noteq> ''--all-categories'' \<Longrightarrow> chosen (a # args) = chosen args"
  using option_names(5) unfolding chosen_def by (auto simp del: set_map)

lemma chosen_subset: "chosen args \<subseteq> drop 2 ` set (map fst categories)"
  unfolding chosen_def by blast

lemma parse_args_known: "fst (parse_args prog args w) \<longleftrightarrow> list_all known_option args"
  by (induction prog args w rule: parse_args.induct) (simp_all add: known_option_def)

lemma parse_args_result:
  assumes "parse_args prog args w = (True, w')"
  shows "(s_verbose w' \<longleftrightarrow> s_verbose w \<or> ''-v'' \<in> set args \<or> ''--verbose'' \<in> set args) \<and>
    (s_adblock w' \<longleftrightarrow> s_adblock w \<or> ''-a'' \<in> set args \<or> ''--adblock'' \<in> set args) \<and>
    set (s_categories w') = set (s_categories w) \<union> chosen args \<and> trace w' = trace w \<and>
    (sorted (s_categories w) \<and> distinct (s_categories w) \<longrightarrow> sorted (s_categories w') \<and> distinct (s_categories w'))"
  using assms
proof (induction prog args w rule: parse_args.induct)
  case (1 prog w)
  then show ?case by (simp add: chosen_def)
next
  case (2 prog arg args w)
  consider "arg = ''-v'' \<or> arg = ''--verbose''" | "arg = ''--all-categories''" | "arg = ''-a'' \<or> arg = ''--adblock''"
    | "arg \<in> set (map fst categories)" using 2 by (auto split: if_splits)
  then show ?case
  proof cases
    case 1
    then show ?thesis using "2.IH"(1) "2.prems" option_names chosen_Cons(3) [of arg args] by auto
  next
    case 2
    then show ?thesis using "2.IH"(2) "2.prems" chosen_Cons(1) [of arg args] chosen_subset [of args] by (auto simp: image_image)
  next
    case 3
    then show ?thesis using "2.IH"(3) "2.prems" option_names chosen_Cons(3) [of arg args] by auto
  next
    case 4
    then have "arg \<notin> {''-v'', ''--verbose'', ''--all-categories'', ''-a'', ''--adblock''}" using option_names by (auto simp del: set_map)
    then show ?thesis using "2.IH"(4) "2.prems" 4 chosen_Cons(2) [of arg args] by auto
  qed
qed

lemma sends_fold: "(\<And>x w. sends (g x w) = sends w) \<Longrightarrow> sends (fold g xs w) = sends w"
  by (induction xs arbitrary: w) simp_all

lemma usage_sends [simp]: "sends (usage prog w) = sends w"
  by (simp add: usage_def Let_def sends_fold)

lemma parse_args_refused:
  "parse_args prog args w = (False, w') \<Longrightarrow> sends w' = sends w"
proof (induction prog args w rule: parse_args.induct)
  case (2 prog arg args w)
  have "sends (add_category c w) = sends w" for c and w by (simp add: add_category_def sends_def)
  moreover have "sends (w\<lparr>s_adblock := b\<rparr>) = sends w" for b by (simp add: sends_def)
  ultimately show ?case using 2 by (auto simp: sends_fold split: if_splits)
qed simp

lemma main_step_break:
  "main_step E n ret w = Some (Some (Return r, ret1), w1) \<Longrightarrow> ret1 = ENOENT"
  by (auto simp: main_step_def Option.bind_eq_Some_conv Let_def
      split: query_result.split_asm step_result.split_asm bool.split_asm if_split_asm)
    (metis query_result.exhaust step_result.exhaust)+

lemma main_run_ends:
  "main_run E n m ret w = Some (Some r, w') \<Longrightarrow> \<not> s_running w' \<or> r = ENOENT"
proof (induction m arbitrary: ret w)
  case (Suc m)
  show ?case
  proof (cases "s_running w")
    case True
    then obtain q w1 where q: "main_step E n ret w = Some (q, w1)"
      using Suc.prems by (auto simp: Option.bind_eq_Some_conv)
    show ?thesis
    proof (cases q)
      case (Some a)
      then show ?thesis
        using Suc q True main_step_break [of E n ret w] by (cases a; cases "fst a") auto
    qed (use Suc.prems True q in simp)
  qed (use Suc.prems in simp)
qed (auto split: if_splits)

subsection \<open>Properties\<close>

text \<open>C27. The options. Without a library the program ends with 1 before it looks at them; an option it does not
  know ends it with \<open>EINVAL\<close>, with nothing sent; otherwise the categories are those chosen, each once and
  in order, whatever the order and repetition of the options, and the two switches are on if given.\<close>

theorem main_runs_as_told:
  "(\<not> fst (initialize L (no_symbols, [])) \<longrightarrow> main_program L E n m prog args = Some (Some 1, initial_world)) \<and>
   (fst (initialize L (no_symbols, [])) \<and> \<not> list_all known_option args \<longrightarrow>
      (\<exists>w. main_program L E n m prog args = Some (Some EINVAL, w) \<and> sends w = [])) \<and>
   (\<forall>w. parse_args prog args initial_world = (True, w) \<longrightarrow>
      list_all known_option args \<and> set (s_categories w) = chosen args \<and> sorted (s_categories w) \<and> distinct (s_categories w) \<and>
      (s_verbose w \<longleftrightarrow> ''-v'' \<in> set args \<or> ''--verbose'' \<in> set args) \<and>
      (s_adblock w \<longleftrightarrow> ''-a'' \<in> set args \<or> ''--adblock'' \<in> set args))"
proof -
  obtain ok ext log where i: "initialize L (no_symbols, []) = (ok, ext, log)" by (cases "initialize L (no_symbols, [])")
  obtain known v where p: "parse_args prog args (initial_world\<lparr>ssl := ext\<rparr>) = (known, v)"
    by (cases "parse_args prog args (initial_world\<lparr>ssl := ext\<rparr>)")
  have "known \<longleftrightarrow> list_all known_option args" using parse_args_known [of prog args "initial_world\<lparr>ssl := ext\<rparr>"] p by simp
  moreover have "\<not> known \<Longrightarrow> sends v = []"
    using parse_args_refused [of prog args "initial_world\<lparr>ssl := ext\<rparr>" v] p by (simp add: sends_def initial_world_def)
  moreover have "list_all known_option args \<and> set (s_categories w) = chosen args \<and> sorted (s_categories w) \<and>
      distinct (s_categories w) \<and> (s_verbose w \<longleftrightarrow> ''-v'' \<in> set args \<or> ''--verbose'' \<in> set args) \<and>
      (s_adblock w \<longleftrightarrow> ''-a'' \<in> set args \<or> ''--adblock'' \<in> set args)"
    if w: "parse_args prog args initial_world = (True, w)" for w
    using parse_args_result [OF w] parse_args_known [of prog args initial_world] w
    by (simp add: initial_world_def)
  ultimately show ?thesis using i p by (simp add: main_program_def)
qed

theorem main_runs_as_told_witness:
  "\<exists>w. parse_args ''sponsoryeet'' [''--intro'', ''-v'', ''--intro''] initial_world = (True, w) \<and> s_categories w = [''intro'']"
proof -
  let ?args = "[''--intro'', ''-v'', ''--intro'']"
  have known: "list_all known_option ?args" by (simp add: known_option_def categories_def)
  then obtain w where w: "parse_args ''sponsoryeet'' ?args initial_world = (True, w)"
    using parse_args_known [of "''sponsoryeet''" ?args initial_world] by (cases "parse_args ''sponsoryeet'' ?args initial_world") simp
  have "chosen ?args = {''intro''}" unfolding chosen_def by (auto simp: categories_def intro!: exI [of _ "''--intro''"])
  then have "set (s_categories w) = set [''intro'']" "sorted (s_categories w)" "distinct (s_categories w)"
    using main_runs_as_told [of L E n m "''sponsoryeet''" ?args] w by simp_all
  then have "s_categories w = [''intro'']" by (intro sorted_distinct_set_unique) simp_all
  with w show ?thesis by blast
qed



end
