(* ===== verification/Conversation.thy ===== *)
theory Conversation
  imports Main_Program
begin

text \<open>
  What the whole program keeps, from the first message to the last.

  The pieces of \<open>loop\<close>, \<open>handleMessage\<close> and \<open>main\<close> are shown once, in a locale, to move the program only
  along a relation \<open>R\<close> between worlds, given that its basic steps do: output and calls to the outside,
  the variables of playback, the three texts taken from the device, a message said to it, a request
  for segments. Interpretations of the locale give the properties at the end.
\<close>

lemma bind_SomeE:
  assumes "Option.bind m f = Some y"
  obtains x where "m = Some x" and "f x = Some y"
  using assms by (auto simp: Option.bind_eq_Some_conv)

subsection \<open>Quiet operations\<close>

abbreviation quiet :: "world \<Rightarrow> world \<Rightarrow> bool" where
  "quiet w w' \<equiv> core w' = core w \<and> sends w' = sends w"

lemma quiet_sys: "sys E a w = (x, w') \<Longrightarrow> quiet w w'"
  by (metis core_sys sends_sys snd_conv)

lemma quiet_through: "through f E a w = Some (x, w') \<Longrightarrow> quiet w w'"
  by (auto simp: through_eq_Some)

lemmas ssl_wrappers = SSL_CTX_free_def SSL_CTX_new_def SSL_CTX_set_verify_def SSL_connect_def SSL_free_def
  SSL_get_error_def SSL_new_def SSL_read_def SSL_set_fd_def TLS_client_method_def

lemma close_fd_quiet [simp]: "core (close_fd E d w) = core w" "sends (close_fd E d w) = sends w"
  by (simp_all add: close_fd_def)

lemma perror_quiet [simp]: "core (perror s w) = core w" "sends (perror s w) = sends w"
  by (simp_all add: perror_def)

lemma new_connection_quiet: "new_connection E w = Some (c, w') \<Longrightarrow> quiet w w'"
  by (auto simp: new_connection_def ssl_wrappers split: if_splits elim!: bind_SomeE dest!: quiet_through)

lemma delete_connection_quiet: "delete_connection E c w = Some (u, w') \<Longrightarrow> quiet w w'"
  by (auto simp: delete_connection_def ssl_wrappers split: if_splits elim!: bind_SomeE dest!: quiet_through)

lemma connect_quiet: "connect E c a w = Some (ok, c', w') \<Longrightarrow> quiet w w'"
  by (auto simp: connect_def ssl_wrappers Let_def split: if_split_asm prod.split_asm
      elim!: bind_SomeE dest!: quiet_through quiet_sys)

lemma conn_read_quiet: "conn_read E c n w = Some (s, c', w') \<Longrightarrow> quiet w w'"
  by (auto simp: conn_read_def ssl_wrappers split: if_split_asm sum.split_asm elim!: bind_SomeE dest!: quiet_through)

text \<open>A download sends one request at most.\<close>

lemma download_on_says:
  "download_on E c a host path w = Some (s, c', w') \<Longrightarrow>
     core w' = core w \<and> (sends w' = sends w \<or> sends w' = sends w @ [bytes_of (get_request host path)])"
  by (auto simp: download_on_def split: if_split_asm option.split_asm
      elim!: bind_SomeE dest!: connect_quiet conn_write_effect conn_read_quiet)

lemma downloadFile_says:
  "downloadFile E host port path w = Some (s, w') \<Longrightarrow>
     core w' = core w \<and> (sends w' = sends w \<or> sends w' = sends w @ [bytes_of (get_request host path)])"
  by (auto simp: downloadFile_def Let_def split: if_split_asm option.split_asm prod.split_asm
      elim!: bind_SomeE dest!: quiet_sys new_connection_quiet delete_connection_quiet download_on_says)

lemma splitToDouble_loop_quiet: "splitToDouble_loop s ret w = (r, w') \<Longrightarrow> quiet w w'"
proof (induction s ret w rule: splitToDouble_loop.induct)
  case (1 s ret w)
  obtain x rest e where x: "strtod s = (x, rest, e)" by (cases "strtod s")
  let ?w = "if e then w\<lparr>errno := ERANGE\<rparr> else w"
  have w: "quiet w ?w" by simp
  have "(if s = rest then (ret, ?w)
      else if errno ?w = ERANGE then ([], (out (''range error, got '' @ fmt_g x @ [CHR 0x0A]) ?w)\<lparr>errno := 0\<rparr>)
      else splitToDouble_loop rest (ret @ [x]) ?w) = (r, w')"
    using 1(2) by (subst (asm) splitToDouble_loop.simps) (simp add: x Let_def)
  then show ?case
    using 1(1) [OF x [symmetric] refl refl] w by (auto split: if_split_asm)
qed

lemma splitToDouble_quiet: "splitToDouble s w = (r, w') \<Longrightarrow> quiet w w'"
  by (simp add: splitToDouble_def splitToDouble_loop_quiet)

lemma collect_segments_quiet: "collect_segments ss segs w = (r, w') \<Longrightarrow> quiet w w'"
proof (induction ss segs w rule: collect_segments.induct)
  case (2 s ss segs w)
  then show ?case by (auto simp: Let_def split: prod.splits if_splits dest!: splitToDouble_quiet)
qed simp

lemma downloadSegments_says:
  assumes "downloadSegments E v w = Some (s, w')"
  shows "core w' = core w \<and> (sends w' = sends w \<or> (\<exists>host path. sends w' = sends w @ [bytes_of (get_request host path)]))"
proof (cases "v = []")
  case False
  let ?path = "''/api/skipSegments'' @ segments_query v (s_categories w)"
  obtain json w1 where d: "downloadFile E ''sponsor.ajay.app'' 443 ?path w = Some (json, w1)"
    using assms False by (auto simp: downloadSegments_def elim!: bind_SomeE)
  have "quiet w1 w'"
    using assms False d
    by (auto simp: downloadSegments_def Let_def
        split: if_split_asm option.split_asm prod.split_asm elim!: bind_SomeE dest!: collect_segments_quiet)
  then show ?thesis using downloadFile_says [OF d] by metis
qed (use assms in \<open>auto simp: downloadSegments_def\<close>)

lemma extractNumber_quiet: "extractNumber re s w = Some (r, w') \<Longrightarrow> quiet w w'"
  by (auto simp: extractNumber_def Let_def split: if_split_asm prod.split_asm elim!: bind_SomeE)

lemma printProgress_quiet: "printProgress p l w = Some (u, w') \<Longrightarrow> quiet w w'"
  by (auto simp: printProgress_def split: if_split_asm elim!: bind_SomeE)

subsection \<open>What the program may say\<close>

text \<open>The texts it can send to the device when its state is \<open>w\<close>.\<close>

inductive says :: "world \<Rightarrow> string \<Rightarrow> bool" for w where
  say_simple: "t \<noteq> SimpleMessageCount \<Longrightarrow> says w (simple_msgs t)"
| say_status: "says w (get_status_text (dec_int i) (mediaSession w))"
| say_seek: "says w (seek_text (dec_int i) (mediaSession w) p)"
| say_command: "c \<in> {''STOP'', ''PAUSE'', ''PLAY''} \<Longrightarrow> says w (command_text (dec_int i) (mediaSession w) c)"
| say_load: "says w (load_text (dec_int i) (currentVideo w) p)"

text \<open>The state without what changes all the time: the variables of playback and the counters.\<close>

definition rest_of :: "world \<Rightarrow> world" where
  "rest_of w = (core w)\<lparr>s_youtube := False, currentSegments := [], nextSegmentStart := unset,
     s_currentPosition := unset, currentDuration := unset, s_lastPositionFetched := unset,
     currentlyPlaying := False, s_lastSeek := 0, s_lastPing := 0, s_currentStatus := [], s_requestId := 0,
     spinnerPos := 0\<rparr>"

definition rest_same :: "world \<Rightarrow> world \<Rightarrow> bool" where
  "rest_same w w' \<longleftrightarrow> rest_of w' = rest_of w \<and> sends w' = sends w"

lemma rest_of_field [simp]:
  "rest_of (w\<lparr>s_youtube := b\<rparr>) = rest_of w" "rest_of (w\<lparr>currentSegments := ss\<rparr>) = rest_of w"
  "rest_of (w\<lparr>nextSegmentStart := x\<rparr>) = rest_of w" "rest_of (w\<lparr>s_currentPosition := x\<rparr>) = rest_of w"
  "rest_of (w\<lparr>currentDuration := x\<rparr>) = rest_of w" "rest_of (w\<lparr>s_lastPositionFetched := x\<rparr>) = rest_of w"
  "rest_of (w\<lparr>currentlyPlaying := b\<rparr>) = rest_of w" "rest_of (w\<lparr>s_lastSeek := i\<rparr>) = rest_of w"
  "rest_of (w\<lparr>s_lastPing := i\<rparr>) = rest_of w" "rest_of (w\<lparr>s_currentStatus := s\<rparr>) = rest_of w"
  "rest_of (w\<lparr>s_requestId := i\<rparr>) = rest_of w" "rest_of (w\<lparr>spinnerPos := p\<rparr>) = rest_of w"
  "rest_of (w\<lparr>s_running := b\<rparr>) = rest_of w" "rest_of (w\<lparr>errno := i\<rparr>) = rest_of w"
  by (simp_all add: rest_of_def core_def)

lemma sends_fields [simp]:
  "sends (w\<lparr>s_youtube := b\<rparr>) = sends w" "sends (w\<lparr>currentSegments := ss\<rparr>) = sends w"
  "sends (w\<lparr>nextSegmentStart := x\<rparr>) = sends w" "sends (w\<lparr>s_currentPosition := x\<rparr>) = sends w"
  "sends (w\<lparr>currentDuration := x\<rparr>) = sends w" "sends (w\<lparr>s_lastPositionFetched := x\<rparr>) = sends w"
  "sends (w\<lparr>currentlyPlaying := b\<rparr>) = sends w" "sends (w\<lparr>s_lastSeek := i\<rparr>) = sends w"
  "sends (w\<lparr>s_lastPing := i\<rparr>) = sends w" "sends (w\<lparr>s_currentStatus := s\<rparr>) = sends w"
  "sends (w\<lparr>spinnerPos := p\<rparr>) = sends w" "sends (w\<lparr>mediaSession := s\<rparr>) = sends w"
  "sends (w\<lparr>currentVideo := s\<rparr>) = sends w" "sends (w\<lparr>dest := s\<rparr>) = sends w"
  by (simp_all add: sends_def)

lemma rest_of_core: "core w' = core w \<Longrightarrow> rest_of w' = rest_of w"
  by (simp add: rest_of_def)

lemma rest_of_basic [simp]:
  "rest_of (emit e w) = rest_of w" "rest_of (puts s w) = rest_of w" "rest_of (cerr s w) = rest_of w"
  "rest_of (perror s w) = rest_of w" "rest_of (close_fd E d w) = rest_of w" "rest_of (snd (sys E a w)) = rest_of w"
  by (simp_all add: rest_of_def)

lemma rest_same_refl [simp]: "rest_same w w"
  by (simp add: rest_same_def)

lemma rest_same_trans [trans]: "rest_same u v \<Longrightarrow> rest_same v w \<Longrightarrow> rest_same u w"
  by (simp add: rest_same_def)

lemma quiet_rest: "quiet w w' \<Longrightarrow> rest_same w w'"
  using rest_of_core [of w' w] by (simp add: rest_same_def)

text \<open>A message said: at most one frame, of a text the state allows.\<close>

definition spoken :: "env \<Rightarrow> world \<Rightarrow> world \<Rightarrow> bool" where
  "spoken E w w' \<longleftrightarrow> rest_of w' = rest_of w \<and>
     (sends w' = sends w \<or>
      (\<exists>ns text. says w text \<and> sends w' = sends w @ [frame (env_target E) (message_for (dest w) (ns_strings ns) text)]))"

definition asked :: "world \<Rightarrow> world \<Rightarrow> bool" where
  "asked w w' \<longleftrightarrow> rest_of w' = rest_of w \<and>
     (sends w' = sends w \<or> (\<exists>host path. sends w' = sends w @ [bytes_of (get_request host path)]))"

lemma spoken_frame:
  "rest_of w' = rest_of w \<Longrightarrow> says w text \<Longrightarrow>
     sends w' = sends w @ [frame (env_target E) (message_for (dest w) (ns_strings ns) text)] \<Longrightarrow> spoken E w w'"
  by (auto simp: spoken_def)

lemma spoken_nothing: "rest_same w w' \<Longrightarrow> spoken E w w'"
  by (simp add: spoken_def rest_same_def)

lemma sendMessage_spoken:
  assumes "sendMessage E (ns_strings ns) text v = Some (ok, w1)" and "says w text"
    and "sends v = sends w" and "dest v = dest w" and "rest_of w' = rest_of w" and "sends w' = sends w1"
  shows "spoken E w w'"
  using sendMessage_cases(2) [OF assms(1)] assms(2-6)
  by (cases "cast_writable (message_for (dest w) (ns_strings ns) text)")
    (auto simp: rest_same_def intro: spoken_frame spoken_nothing)

lemma counted_spoken:
  assumes "sendMessage E (ns_strings ns) text (w\<lparr>s_requestId := i\<rparr>) = Some (ok, w')" and "says w text"
  shows "spoken E w w'"
  using rest_of_core [OF sendMessage_cases(1) [OF assms(1)]]
  by (intro sendMessage_spoken [OF assms]) simp_all

lemma sendSimple_spoken:
  assumes "sendSimple E t ns w = Some (ok, w')"
  shows "spoken E w w'"
proof (cases "ns = NamespacesCount \<or> t = SimpleMessageCount")
  case True
  then show ?thesis using assms by (auto simp: sendSimple_def spoken_def split: if_split_asm)
next
  case False
  show ?thesis
  proof (cases "t = MsgGetStatus \<and> mediaSession w \<noteq> []")
    case True
    then have "sendMessage E (ns_strings NsMedia) (get_status_text (dec_int (s_requestId w)) (mediaSession w))
        (w\<lparr>s_requestId := s_requestId w + 1\<rparr>) = Some (ok, w')"
      using assms False by (auto simp: sendSimple_def next_request_id_Some elim!: bind_SomeE)
    then show ?thesis using say_status by (rule counted_spoken)
  next
    case plain: False
    let ?v = "if t = MsgPing \<or> t = MsgPong then w\<lparr>s_verbose := False\<rparr> else w"
    obtain w1 where m: "sendMessage E (ns_strings ns) (simple_msgs t) ?v = Some (ok, w1)"
      and w': "w' = w1\<lparr>s_verbose := s_verbose w\<rparr>"
      using assms False plain by (auto simp: sendSimple_def Let_def split: if_split_asm elim!: bind_SomeE)
    have "rest_of (w1\<lparr>s_verbose := s_verbose w\<rparr>) = rest_of w"
      using sendMessage_cases(1) [OF m] by (auto simp: rest_of_def split: if_split_asm)
    then show ?thesis
      using False by (intro sendMessage_spoken [OF m say_simple]) (simp_all add: w')
  qed
qed

lemma seek_spoken: "seek E p w = Some (ok, w') \<Longrightarrow> spoken E w w'"
  by (auto simp: seek_def next_request_id_Some simp del: ns_strings.simps split: if_split_asm elim!: bind_SomeE
      intro: counted_spoken say_seek) (auto intro!: spoken_nothing quiet_rest)

lemma loadMedia_spoken: "loadMedia E (currentVideo w) p w = Some (ok, w') \<Longrightarrow> spoken E w w'"
  by (auto simp: loadMedia_def next_request_id_Some simp del: ns_strings.simps split: if_split_asm elim!: bind_SomeE
      intro: counted_spoken say_load) (auto intro!: spoken_nothing quiet_rest)

lemma sendSimpleMedia_spoken:
  "sendSimpleMedia E c w = Some (ok, w') \<Longrightarrow> c \<in> {''STOP'', ''PAUSE'', ''PLAY''} \<Longrightarrow> spoken E w w'"
  by (auto simp: sendSimpleMedia_def next_request_id_Some simp del: ns_strings.simps split: if_split_asm elim!: bind_SomeE
      intro: counted_spoken say_command) (auto intro!: spoken_nothing quiet_rest)

lemma downloadSegments_asked: "downloadSegments E v w = Some (s, w') \<Longrightarrow> asked w w'"
  using downloadSegments_says [of E v w s w'] rest_of_core [of w' w] by (auto simp: asked_def)

subsection \<open>What is taken from the device\<close>

lemma extracted_session:
  assumes "regexExtract pat_mediaSessionId payload = Some s"
  shows "list_all is_digit s"
proof -
  have "pat_mediaSessionId = bare_value ''mediaSessionId'' ''[0-9]''"
    by (simp add: pat_mediaSessionId_def bare_value_def)
  moreover have "re_compile (bare_value ''mediaSessionId'' ''[0-9]'') = Some (bare_value_items ''mediaSessionId'' digits)"
    by (rule re_compile_bare_value [OF _ bracket_texts(3)]) (simp add: plain_def special_def)
  ultimately have "extract_group (bare_value_items ''mediaSessionId'' digits) payload = s"
    using assms by (simp add: regexExtract_def)
  from extract_bare_sound [OF this] show ?thesis
    by (cases "s = []") (auto simp: list_all_iff class_has_digits)
qed

lemma extracted_video:
  assumes "regexExtract pat_contentId payload = Some s"
  shows "list_all (class_has video_chars) s"
proof -
  have "pat_contentId = quoted_value ''contentId'' ''[A-Za-z0-9_-]''"
    by (simp add: pat_contentId_def quoted_value_def)
  moreover have "re_compile (quoted_value ''contentId'' ''[A-Za-z0-9_-]'') = Some (quoted_value_items ''contentId'' video_chars)"
    by (rule re_compile_quoted_value [OF _ bracket_texts(5)]) (simp add: plain_def special_def)
  ultimately have "extract_group (quoted_value_items ''contentId'' video_chars) payload = s"
    using assms by (simp add: regexExtract_def)
  from extract_quoted_sound [OF this] show ?thesis by (cases "s = []") auto
qed

lemma extracted_dest:
  assumes "regexExtract pat_sessionId payload = Some s"
  shows "CHR 0x22 \<notin> set s"
proof -
  have "pat_sessionId = quoted_value ''sessionId'' (''[^'' @ CHR 0x22 # '']'')"
    by (simp add: pat_sessionId_def quoted_value_def)
  moreover have "re_compile (quoted_value ''sessionId'' (''[^'' @ CHR 0x22 # '']'')) = Some (quoted_value_items ''sessionId'' not_quote)"
    by (rule re_compile_quoted_value [OF _ bracket_texts(1)]) (simp add: plain_def special_def)
  ultimately have "extract_group (quoted_value_items ''sessionId'' not_quote) payload = s"
    using assms by (simp add: regexExtract_def)
  from extract_quoted_sound [OF this] show ?thesis
    by (cases "s = []") (auto simp: list_all_iff class_has_not_quote)
qed

subsection \<open>One relation for the whole program\<close>

locale kept =
  fixes E :: env and R :: "world \<Rightarrow> world \<Rightarrow> bool"
  assumes R_trans [trans]: "R u v \<Longrightarrow> R v w \<Longrightarrow> R u w"
    and R_rest: "rest_same w w' \<Longrightarrow> R w w'"
    and R_spoken: "spoken E w w' \<Longrightarrow> R w w'"
    and R_asked: "asked w w' \<Longrightarrow> R w w'"
    and R_session: "list_all is_digit s \<Longrightarrow> R w (w\<lparr>mediaSession := s\<rparr>)"
    and R_video: "list_all (class_has video_chars) s \<Longrightarrow> R w (w\<lparr>currentVideo := s\<rparr>)"
    and R_dest: "CHR 0x22 \<notin> set s \<Longrightarrow> R w (w\<lparr>dest := s\<rparr>)"
begin

lemma R_refl [simp, intro]: "R w w"
  by (simp add: R_rest)

lemma R_quiet: "quiet w w' \<Longrightarrow> R w w'"
  by (intro R_rest quiet_rest)

lemma R_sys: "sys E a w = (x, w') \<Longrightarrow> R w w'"
  by (intro R_quiet quiet_sys)

lemma R_time: "time E w = (x, w') \<Longrightarrow> R w w'"
  by (simp add: time_def R_sys)

lemma R_fields [simp]:
  "R w (w\<lparr>s_youtube := b\<rparr>)" "R w (w\<lparr>currentSegments := ss\<rparr>)" "R w (w\<lparr>nextSegmentStart := x\<rparr>)"
  "R w (w\<lparr>s_currentPosition := x\<rparr>)" "R w (w\<lparr>currentDuration := x\<rparr>)" "R w (w\<lparr>s_lastPositionFetched := x\<rparr>)"
  "R w (w\<lparr>currentlyPlaying := b\<rparr>)" "R w (w\<lparr>s_lastSeek := i\<rparr>)" "R w (w\<lparr>s_lastPing := i\<rparr>)"
  "R w (w\<lparr>s_currentStatus := s\<rparr>)" "R w (w\<lparr>s_running := b\<rparr>)" "R w (puts s w)" "R w (cerr s w)" "R w (emit (Out s) w)"
  "R w (when_verbose (puts s) w)" "R w (perror s w)"
  "R w (w\<lparr>spinnerPos := k\<rparr>)"
  by (simp_all add: R_rest rest_same_def)

lemma R_then: "R u v \<Longrightarrow> w = f v \<Longrightarrow> (\<And>x. R x (f x)) \<Longrightarrow> R u w"
  using R_trans by blast

lemma R_position: "currentPosition E w = (p, w') \<Longrightarrow> R w w'"
  by (intro R_quiet currentPosition_core)

lemma R_until: "secondsUntilNextSegment E w = (p, w') \<Longrightarrow> R w w'"
  by (intro R_quiet secondsUntil_core)

lemma R_number: "extractNumber re s w = Some (r, w') \<Longrightarrow> R w w'"
  by (intro R_quiet extractNumber_quiet)

lemma R_simple: "sendSimple E t ns w = Some (ok, w') \<Longrightarrow> R w w'"
  by (intro R_spoken sendSimple_spoken)

lemma R_maybeSeek:
  assumes "maybeSeek E w = Some (u, w')"
  shows "R w w'"
  using maybeSeek_cases [OF assms]
proof (elim disjE exE conjE)
  fix s t v ok
  assume v: "core v = after_seek (env_time E (Suc t)) (core w)" "sends v = sends w"
    and ok: "seek E (seg_end s) v = Some (ok, w')"
  have "rest_of v = rest_of w" using v(1) by (simp add: rest_of_def after_seek_def)
  then have "R w v" using v(2) by (intro R_rest) (simp add: rest_same_def)
  then show ?thesis using R_spoken [OF seek_spoken [OF ok]] R_trans by blast
qed (simp add: R_quiet)

lemma R_onto [intro!]:
  assumes "R u w"
  shows "R u (w\<lparr>s_youtube := b\<rparr>)" "R u (w\<lparr>currentSegments := ss\<rparr>)" "R u (w\<lparr>nextSegmentStart := x\<rparr>)"
    "R u (w\<lparr>s_currentPosition := x\<rparr>)" "R u (w\<lparr>currentDuration := x\<rparr>)" "R u (w\<lparr>s_lastPositionFetched := x\<rparr>)"
    "R u (w\<lparr>currentlyPlaying := b\<rparr>)" "R u (w\<lparr>s_lastSeek := i\<rparr>)" "R u (w\<lparr>s_lastPing := i\<rparr>)"
    "R u (w\<lparr>s_currentStatus := s\<rparr>)" "R u (w\<lparr>s_running := b\<rparr>)" "R u (puts s w)" "R u (cerr s w)"
    "R u (emit (Out s) w)" "R u (when_verbose (puts s) w)" "R u (perror s w)" "R u (close_fd E d w)"
    "R u (w\<lparr>spinnerPos := k\<rparr>)"
    "list_all is_digit t \<Longrightarrow> R u (w\<lparr>mediaSession := t\<rparr>)"
    "list_all (class_has video_chars) t \<Longrightarrow> R u (w\<lparr>currentVideo := t\<rparr>)"
    "CHR 0x22 \<notin> set t \<Longrightarrow> R u (w\<lparr>dest := t\<rparr>)"
  using assms R_trans [of u w] R_fields [of w] R_session [of t w] R_video [of t w] R_dest [of t w]
    R_quiet [of "close_fd E d w" w] by auto

lemma R_read_status:
  assumes "read_status E payload w = Some (u, w')"
  shows "R w w'"
proof -
  obtain n1 w1 where 1: "extractNumber pat_duration payload w = Some (n1, w1)"
    using assms by (auto simp: read_status_def elim!: bind_SomeE)
  let ?w2 = "case n1 of None \<Rightarrow> w1 | Some d \<Rightarrow> w1\<lparr>currentDuration := d\<rparr>"
  obtain n2 w3 where 2: "extractNumber pat_currentTime payload ?w2 = Some (n2, w3)"
    using assms 1 by (auto simp: read_status_def Let_def elim!: bind_SomeE)
  let ?w4 = "case n2 of None \<Rightarrow> w3
    | Some p \<Rightarrow> (let w = w3\<lparr>s_currentPosition := p\<rparr>; (now, w) = time E w in w\<lparr>s_lastPositionFetched := of_integer now\<rparr>)"
  obtain st session where session: "regexExtract pat_mediaSessionId payload = Some session"
    and w': "w' = (let w = (if st \<noteq> [] then ?w4\<lparr>currentlyPlaying := (st = ''PLAYING''), s_currentStatus := st\<rparr> else ?w4)
      in if session \<noteq> [] then (when_verbose (puts (''Got media session '' @ session)) w)\<lparr>mediaSession := session\<rparr> else w)"
    using assms 1 2 unfolding read_status_def Let_def by (auto elim!: bind_SomeE)
  have "R w ?w2" using R_number [OF 1] by (cases n1) auto
  also have "R \<dots> ?w4"
  proof (cases n2)
    case (Some p)
    obtain now v where t: "time E (w3\<lparr>s_currentPosition := p\<rparr>) = (now, v)" by fastforce
    have "R ?w2 (w3\<lparr>s_currentPosition := p\<rparr>)" using R_number [OF 2] by auto
    also note R_time [OF t]
    finally show ?thesis using Some t by auto
  qed (use R_number [OF 2] in simp)
  also have "R ?w4 w'"
    unfolding w' Let_def using extracted_session [OF session] by (auto 4 7)
  finally show ?thesis .
qed

lemma R_update_video:
  assumes "update_video E payload w = Some (u, w')"
  shows "R w w'"
proof -
  obtain v where v: "regexExtract pat_contentId payload = Some v"
    using assms by (auto simp: update_video_def elim!: bind_SomeE)
  let ?w = "when_verbose (puts (''Video id: '' @ [CHR 0x27] @ v @ [CHR 0x27])) w"
  show ?thesis
  proof (cases "v \<noteq> [] \<and> v \<noteq> currentVideo ?w")
    case True
    then obtain ss w1 where d: "downloadSegments E v ?w = Some (ss, w1)"
      and w': "w' = w1\<lparr>currentSegments := ss, currentVideo := v, nextSegmentStart := unset\<rparr>"
      using assms v by (auto simp: update_video_def Let_def elim!: bind_SomeE)
    have "R w w1" using R_trans [OF R_fields(15)] R_asked [OF downloadSegments_asked [OF d]] by blast
    then show ?thesis unfolding w' using extracted_video [OF v] by auto
  next
    case False
    then have "w' = ?w" using assms v by (auto simp: update_video_def Let_def)
    then show ?thesis by simp
  qed
qed

lemma R_schedule_skip:
  assumes "schedule_skip E w = Some (u, w')"
  shows "R w w'"
proof (cases "currentSegments w = []")
  case False
  obtain delta w1 where d: "secondsUntilNextSegment E w = (delta, w1)" by fastforce
  let ?w2 = "when_verbose (puts (''time to next segment: '' @ fmt_g delta)) w1"
  obtain now w3 where t: "time E ?w2 = (now, w3)" by fastforce
  let ?w4 = "if dle (Fin 0) delta then w3\<lparr>nextSegmentStart := add (of_integer now) delta\<rparr> else ?w2"
  have m: "maybeSeek E ?w4 = Some (u, w')"
    using assms False unfolding schedule_skip_def Let_def by (simp only: d t prod.case if_False)
  have 2: "R w ?w2" using R_until [OF d] by auto
  then have "R w ?w4" using R_trans [OF 2 R_time [OF t]] by auto
  then show ?thesis using R_maybeSeek [OF m] R_trans by blast
qed (use assms in \<open>simp add: schedule_skip_def\<close>)

lemma R_skip_ad:
  assumes "skip_ad E payload w = Some (u, w')"
  shows "R w w'"
proof -
  obtain st where st: "regexExtract pat_customState payload = Some st"
    using assms by (auto simp: skip_ad_def elim!: bind_SomeE)
  define v where "v = when_verbose (puts (''Custom player state: '' @ st)) w"
  have v: "R w v" by (auto simp: v_def)
  note rest = assms [unfolded skip_ad_def Let_def st Option.bind.bind_lunit, folded v_def]
  show ?thesis
  proof (cases "s_adblock v \<and> st = ''1081''")
    case True
    obtain p w2 where p: "currentPosition E (puts '' Playing an ad, attempting to skip'' v) = (p, w2)" by fastforce
    have 2: "R w w2" using v by (intro R_trans [OF _ R_position [OF p]]) auto
    obtain ok1 w3 ok2 q where "sendSimpleMedia E ''STOP'' w2 = Some (ok1, w3)"
      and "loadMedia E (currentVideo w3) q w3 = Some (ok2, w')"
      using rest True by (auto simp: p elim!: bind_SomeE)
    then have "R w2 w3" and "R w3 w'"
      by (auto intro: R_spoken sendSimpleMedia_spoken loadMedia_spoken)
    then show ?thesis using 2 R_trans by blast
  next
    case False
    then have "w' = v" using rest by auto
    then show ?thesis using v by simp
  qed
qed

lemma R_media_status:
  assumes "media_status E payload w = Some (b, w')"
  shows "R w w'"
  using assms unfolding media_status_def
  by (auto split: if_split_asm elim!: bind_SomeE
      dest!: R_read_status R_update_video R_schedule_skip R_skip_ad) (blast intro: R_trans)+

lemma R_receiver_status:
  assumes "receiver_status E payload w = Some (u, w')"
  shows "R w w'"
proof -
  obtain name s where s: "regexExtract pat_sessionId payload = Some s"
    and name: "regexExtract pat_displayName payload = Some name"
    using assms by (auto simp: receiver_status_def elim!: bind_SomeE)
  define w1 where "w1 = when_verbose (puts (''session: '' @ s)) (when_verbose (puts (''app display name: '' @ name)) w)"
  define w2 where "w2 = (if s \<noteq> [] then w1\<lparr>dest := s\<rparr> else w1)"
  define w3 where "w3 = (if name = ''YouTube'' then when_verbose (puts ''Youtube playing'') (w2\<lparr>s_youtube := True\<rparr>)
    else if name \<noteq> [] then w2\<lparr>s_youtube := False,
      s_currentStatus := ''Not youtube: '' @ [CHR 0x27] @ name @ [CHR 0x27]\<rparr> else w2)"
  have "R w w1" by (auto simp: w1_def)
  then have "R w w2" using extracted_dest [OF s] by (auto simp: w2_def)
  then have 3: "R w w3" by (auto simp: w3_def)
  define w4 where "w4 = when_verbose (puts ''Sending get status for media'') w3"
  have 4: "R w w4" using 3 by (auto simp: w4_def)
  have rest: "(if find_text ''urn:x-cast:com.google.cast.media'' payload \<noteq> None then do {
       (_, w) \<leftarrow> sendSimple E MsgConnect NsConnection w4;
       (_, w) \<leftarrow> sendSimple E MsgGetStatus NsMedia w;
       Some ((), w)
     } else Some ((), w3)) = Some (u, w')"
    using assms unfolding receiver_status_def s name Let_def w4_def w3_def w2_def w1_def by simp
  then show ?thesis using 3 4
    by (auto split: if_split_asm elim!: bind_SomeE dest!: R_simple) (blast intro: R_trans)+
qed

lemma R_handle_payload:
  assumes "handle_payload E message w = Some (b, w')"
  shows "R w w'"
proof -
  obtain type where type: "regexExtract pat_type (payload_utf8 message) = Some type"
    using assms unfolding handle_payload_def Let_def by (rule bind_SomeE)
  define v where "v = (if type \<noteq> ''PING'' \<and> s_verbose w then puts (from_to message) w else w)"
  have v: "R w v" by (auto simp: v_def)
  have 1: "R w (v\<lparr>s_currentStatus := s\<rparr>)" for s using v by auto
  show ?thesis
    using assms [unfolded handle_payload_def Let_def type Option.bind.bind_lunit, folded v_def] v
    by (auto split: if_split_asm elim!: bind_SomeE dest!: R_simple R_media_status R_receiver_status intro: R_trans [OF v] R_trans [OF 1])
qed

lemma R_handleMessage: "handleMessage E buffer w = Some (b, w') \<Longrightarrow> R w w'"
  by (auto simp: handleMessage_def split: rd.split_asm if_split_asm dest: R_handle_payload)

text \<open>A chain of steps is followed from its end.\<close>

lemma R_back: "R v w' \<Longrightarrow> R w v \<Longrightarrow> R w w'"
  by (rule R_trans)

lemma R_connect: "connect E c a w = Some (ok, c', w') \<Longrightarrow> R w w'"
  by (intro R_quiet connect_quiet)

lemma R_read: "conn_read E c n w = Some (s, c', w') \<Longrightarrow> R w w'"
  by (intro R_quiet conn_read_quiet)

lemma R_loop_start: "loop_start E c address w = Some (r, c', w') \<Longrightarrow> R w w'"
  by (auto simp: loop_start_def Let_def split: if_split_asm prod.split_asm elim!: bind_SomeE R_back
      dest!: R_connect R_simple R_time)

lemma R_media_command:
  "sendSimpleMedia E c w = Some (ok, w') \<Longrightarrow> c \<in> {''STOP'', ''PAUSE'', ''PLAY''} \<Longrightarrow> R w w'"
  by (intro R_spoken sendSimpleMedia_spoken)

lemma R_handle_key: "handle_key E w = Some (ok, w') \<Longrightarrow> R w w'"
  by (auto simp: handle_key_def Let_def unhandled_key_def split: if_split_asm prod.split_asm elim!: bind_SomeE R_back
      dest!: R_sys R_media_command)

lemma R_on_timeout: "on_timeout E w = Some (ok, w') \<Longrightarrow> R w w'"
  by (auto simp: on_timeout_def Let_def split: if_split_asm prod.split_asm elim!: bind_SomeE R_back
      dest!: R_time R_simple)

lemma R_receive: "receive E c w = Some (r, c', w') \<Longrightarrow> R w w'"
  by (auto simp: receive_def Let_def split: if_split_asm prod.split_asm elim!: bind_SomeE R_back
      dest!: R_read R_time R_handleMessage)

lemma R_loop_body: "loop_body E events i f c w = Some (r, c', w') \<Longrightarrow> R w w'"
  by (auto simp: loop_body_def Let_def split: if_split_asm elim!: bind_SomeE R_back
      dest!: R_handle_key R_on_timeout R_receive)

lemma R_progress: "printProgress p l w = Some (u, w') \<Longrightarrow> R w w'"
  by (intro R_quiet printProgress_quiet)

lemma R_loop_step: "loop_step E c w = Some (r, c', w') \<Longrightarrow> R w w'"
  by (auto simp: loop_step_def Let_def split: if_split_asm prod.split_asm elim!: bind_SomeE R_back
      dest!: R_sys R_position R_progress R_loop_body)

lemma R_loop_run: "loop_run E n c w = Some (r, c', w') \<Longrightarrow> R w w'"
proof (induction n arbitrary: c w)
  case (Suc n)
  then show ?case
    by (auto split: step_result.split_asm elim!: bind_SomeE dest!: R_loop_step intro: R_trans)
qed simp

lemma R_loop:
  assumes "loop E n address w = Some (r, w')"
  shows "R w w'"
proof -
  define v where "v = when_verbose (puts ''Opening connection'') (w\<lparr>dest := []\<rparr>)"
  have v: "R w v" by (auto simp: v_def)
  have new: "new_connection E w = Some (c, w') \<Longrightarrow> R w w'" for c w w'
    by (intro R_quiet new_connection_quiet)
  have del: "delete_connection E c w = Some (u, w') \<Longrightarrow> R w w'" for c u w w'
    by (intro R_quiet delete_connection_quiet)
  show ?thesis using assms [unfolded loop_def Let_def, folded v_def] v
    by (auto split: step_result.split_asm elim!: bind_SomeE R_back dest!: new R_loop_start R_loop_run del)
qed

subsection \<open>The search and the main loop\<close>

lemma R_events [intro!]:
  assumes "R u w"
  shows "R u (emit (Datagram d) w)" "R u (emit (Slept n) w)" "R u (snd (sys E a w))"
  by (rule R_trans [OF assms], rule R_quiet, simp)+

lemma R_checked: "(\<And>v. R v (snd (next v))) \<Longrightarrow> R w (snd (checked E d m next w))"
  by (auto simp: checked_def split: prod.split dest!: R_sys elim!: R_trans)

lemma R_open_socket:
  assumes "openSocket E w = (d, w')"
  shows "R w w'"
proof -
  have "R w (snd (openSocket E w))"
    by (auto simp: openSocket_def split: prod.split dest!: R_sys intro: R_trans intro!: R_checked)
  then show ?thesis using assms by simp
qed

lemma R_send_request: "sendRequest E w = (ok, w') \<Longrightarrow> R w w'"
  by (auto simp: sendRequest_def sendData_def Let_def split: if_split_asm prod.split_asm elim!: R_back dest!: R_sys)

lemma R_parse_packet: "parsePacket data w = Some (name, w') \<Longrightarrow> R w w'"
  by (auto simp: parsePacket_def Let_def split: if_split_asm prod.split_asm option.split_asm elim!: bind_SomeE)

lemma R_on_packet: "on_packet E data family from qs w = Some (r, qs', w') \<Longrightarrow> R w w'"
  by (auto simp: on_packet_def Let_def split: if_split_asm elim!: bind_SomeE R_back dest!: R_parse_packet)

lemma R_query_events: "query_events E i f qs w = Some (r, qs', w') \<Longrightarrow> R w w'"
  by (auto simp: query_events_def unhandled_key_def Let_def split: if_split_asm prod.split_asm sum.split_asm
      elim!: R_back dest!: R_sys R_on_packet)

lemma R_query_step: "query_step E qs w = Some (r, qs', w') \<Longrightarrow> R w w'"
  by (auto simp: query_step_def show_spinner_def Let_def split: if_split_asm prod.split_asm
      elim!: R_back dest!: R_sys R_time R_send_request R_query_events)

lemma R_query_run: "query_run E n qs w = Some (r, qs', w') \<Longrightarrow> R w w'"
proof (induction n arbitrary: qs w)
  case (Suc n)
  then show ?case
    by (auto split: query_result.split_asm if_split_asm elim!: bind_SomeE dest!: R_query_step intro: R_trans)
qed simp

lemma R_query: "query E n a w = Some (r, a', w') \<Longrightarrow> R w w'"
  by (auto simp: query_def split: prod.split_asm elim!: bind_SomeE R_back dest!: R_time R_query_run)

lemma R_findChromecast: "findChromecast E n a w = Some (r, a', w') \<Longrightarrow> R w w'"
  by (auto simp: findChromecast_def Let_def split: if_split_asm prod.split_asm query_result.split_asm
      elim!: bind_SomeE R_back dest!: R_open_socket R_send_request R_query)

lemma R_main_step:
  assumes "main_step E n ret w = Some (r, w')"
  shows "R w w'"
proof -
  define v where "v = w\<lparr>s_currentPosition := unset, nextSegmentStart := unset, s_lastPositionFetched := unset,
    currentVideo := [], mediaSession := [], dest := []\<rparr>"
  define v' where "v' = (if ret \<noteq> 0
    then emit (Slept 10) (snd (sys E (env_int E) (puts ''Disconnected, sleeping and re-connecting'' v))) else v)"
  have "R w v" by (auto simp: v_def)
  then have v': "R w v'" by (auto simp: v'_def)
  show ?thesis using assms [unfolded main_step_def Let_def, folded v_def, folded v'_def] v'
    by (auto split: query_result.split_asm step_result.split_asm bool.split_asm
        elim!: bind_SomeE R_back dest!: R_findChromecast R_loop)
qed

lemma R_main_run: "main_run E n m ret w = Some (r, w') \<Longrightarrow> R w w'"
proof (induction m arbitrary: ret w)
  case (Suc m)
  then show ?case
    by (auto split: if_split_asm option.split_asm prod.split_asm step_result.split_asm
        elim!: bind_SomeE dest!: R_main_step intro: R_trans)
qed (auto split: if_split_asm)
end

end
