(* ===== verification/Speech.thy ===== *)
theory Speech
  imports Conversation
begin

text \<open>
  What the program says over its whole life, and what it never changes: two interpretations of the
  locale \<open>kept\<close>, and the properties of \<open>main\<close> they give.
\<close>

subsection \<open>JSON\<close>

text \<open>The state's texts fit between the quotes of the JSON they are put in.\<close>

definition json_safe :: "world \<Rightarrow> bool" where
  "json_safe w \<longleftrightarrow> list_all is_digit (mediaSession w) \<and> list_all (class_has video_chars) (currentVideo w) \<and>
     CHR 0x22 \<notin> set (dest w)"

text \<open>The JSON texts without escapes, arrays and the constants.\<close>

definition json_char :: "char \<Rightarrow> bool" where
  "json_char c \<longleftrightarrow> c \<noteq> CHR 0x22 \<and> c \<noteq> CHR 0x5C \<and> 32 \<le> (of_char c :: nat) \<and> (of_char c :: nat) < 128"

inductive json_value :: "string \<Rightarrow> bool" and json_members :: "string \<Rightarrow> bool" where
  json_string: "list_all json_char s \<Longrightarrow> json_value (quoted s)"
| json_number: "sg \<in> {[], ''-''} \<Longrightarrow> json_value (sg @ dec n)"
| json_decimal: "sg \<in> {[], ''-''} \<Longrightarrow> list_all is_digit s \<Longrightarrow> s \<noteq> [] \<Longrightarrow> json_value (sg @ dec n @ CHR ''.'' # s)"
| json_object: "json_members s \<Longrightarrow> json_value (''{'' @ s @ ''}'')"
| json_last: "list_all json_char k \<Longrightarrow> json_value v \<Longrightarrow>
    json_members (replicate a CHR '' '' @ quoted k @ CHR '':'' # replicate b CHR '' '' @ v @ replicate c CHR '' '')"
| json_more: "list_all json_char k \<Longrightarrow> json_value v \<Longrightarrow> json_members s \<Longrightarrow>
    json_members (replicate a CHR '' '' @ quoted k @ CHR '':'' # replicate b CHR '' '' @ v @ replicate c CHR '' '' @ CHR '','' # s)"

text \<open>What goes out: a frame of a message whose text is JSON, unless it ends with a position that is no number,
  or an HTTP request.\<close>

definition not_finite :: "string \<Rightarrow> bool" where
  "not_finite s \<longleftrightarrow> (\<exists>t. s = t @ ''inf}'' \<or> s = t @ ''nan}'')"

definition well_sent :: "target \<Rightarrow> byte list \<Rightarrow> bool" where
  "well_sent tg data \<longleftrightarrow>
     (\<exists>to ns text. CHR 0x22 \<notin> set to \<and> (json_value text \<or> not_finite text) \<and>
        data = frame tg (message_for to (ns_strings ns) text)) \<or>
     (\<exists>host path. data = bytes_of (get_request host path))"

text \<open>A text is read off from its front: the members of an object, then \<open>t\<close>.\<close>

definition members_then :: "string \<Rightarrow> string \<Rightarrow> bool" where
  "members_then t s \<longleftrightarrow> (\<exists>m. json_members m \<and> s = m @ t)"

lemma members_space:
  assumes "members_then t s"
  shows "members_then t (CHR '' '' # s)"
proof -
  have "json_members (CHR '' '' # m)" if "json_members m" for m
    using that
  proof cases
    case (json_last k v a b c)
    then show ?thesis using json_value_json_members.json_last [of k v "Suc a" b c] by simp
  next
    case (json_more k v s a b c)
    then show ?thesis using json_value_json_members.json_more [of k v s "Suc a" b c] by simp
  qed
  with assms show ?thesis unfolding members_then_def by (metis append_Cons)
qed

lemma members_last:
  assumes "list_all json_char k" and "json_value v"
  shows "members_then (CHR ''}'' # t) (quoted k @ CHR '':'' # CHR '' '' # v @ CHR ''}'' # t)"
    and "members_then (CHR ''}'' # t) (quoted k @ CHR '':'' # CHR '' '' # v @ CHR '' '' # CHR ''}'' # t)"
    and "members_then (CHR ''}'' # t) (quoted k @ CHR '':'' # CHR '' '' # v @ CHR '' '' # CHR '' '' # CHR ''}'' # t)"
  using json_last [OF assms, of 0 1 0] json_last [OF assms, of 0 1 1] json_last [OF assms, of 0 1 2]
  by (auto simp: members_then_def numeral_2_eq_2)

lemma members_more:
  assumes "list_all json_char k" and "json_value v" and "members_then t s"
  shows "members_then t (quoted k @ CHR '':'' # CHR '' '' # v @ CHR '','' # s)"
proof -
  obtain m where m: "json_members m" "s = m @ t" using assms(3) by (auto simp: members_then_def)
  show ?thesis using json_more [OF assms(1,2) m(1), of 0 1 0] by (auto simp: members_then_def m(2))
qed

lemma members_nested:
  assumes "list_all json_char k" and "members_then (CHR ''}'' # CHR '','' # s) u" and "members_then t s"
  shows "members_then t (quoted k @ CHR '':'' # CHR '' '' # CHR ''{'' # u)"
proof -
  obtain m where m: "json_members m" "u = m @ CHR ''}'' # CHR '','' # s" using assms(2) by (auto simp: members_then_def)
  show ?thesis using members_more [OF assms(1) json_object [OF m(1)] assms(3)] by (simp add: m(2))
qed

lemma object_members: "members_then ''}'' s \<Longrightarrow> json_value (CHR ''{'' # s)"
  by (auto simp: members_then_def dest: json_object)

lemmas json_intros = object_members members_space members_last members_more members_nested

lemma json_int [intro]: "json_value (dec_int i)"
  using json_number [of "''-''" "nat (- i)"] json_number [of "[]" "nat i"] by (simp add: dec_int_def)

lemma json_position: "json_value (fmt_f p) \<or> fmt_f p \<in> {''inf'', ''-inf'', ''nan''}"
proof -
  have "json_value (sg @ fixed_point 6 n)" if "sg \<in> {[], ''-''}" for sg n
    using json_decimal [OF that list_all_pad, of 6] by (simp add: fixed_point_def pad_def)
  moreover have "sign_text p \<in> {[], ''-''}" by simp
  ultimately have "json_value (sign_text p @ fixed_point 6 n)" for n by blast
  then show ?thesis by (cases p) (simp_all del: sign_text.simps)
qed

lemma json_chars:
  "list_all is_digit s \<Longrightarrow> list_all json_char s" "list_all (class_has video_chars) s \<Longrightarrow> list_all json_char s"
  by (auto simp: list_all_iff is_digit_def json_char_def video_chars_def in_range_def)

lemma json_simple: "t \<noteq> SimpleMessageCount \<Longrightarrow> json_value (simple_msgs t)"
proof -
  have "json_value ''1''" using json_number [of "[]" 1] dec.simps [of 1] by (simp add: char_of_def bit_0)
  then show "t \<noteq> SimpleMessageCount \<Longrightarrow> json_value (simple_msgs t)"
    by (cases t) (auto simp: json_char_def intro!: json_intros json_string members_last [where v = "''1''", simplified])
qed

lemma json_texts:
  assumes "list_all json_char session" and "list_all json_char video"
  shows "json_value (get_status_text (dec_int i) session)"
    and "list_all json_char command \<Longrightarrow> json_value (command_text (dec_int i) session command)"
    and "json_value (fmt_f p) \<Longrightarrow> json_value (seek_text (dec_int i) session p)"
    and "json_value (fmt_f p) \<Longrightarrow> json_value (load_text (dec_int i) video p)"
  using assms unfolding get_status_text_def command_text_def seek_text_def load_text_def
  by (auto simp: json_char_def intro!: json_intros json_string)

lemma says_json:
  assumes "says w text" and "json_safe w"
  shows "json_value text \<or> not_finite text"
proof -
  have "list_all json_char (mediaSession w)" "list_all json_char (currentVideo w)"
    using assms(2) json_chars by (simp_all add: json_safe_def)
  note texts = json_texts [OF this]
  have nan: "not_finite (seek_text rid session p) \<and> not_finite (load_text rid session p)"
    if "\<not> json_value (fmt_f p)" for rid session p
  proof -
    have "fmt_f p \<in> {''inf'', ''-inf'', ''nan''}" using json_position that by blast
    then show ?thesis by (auto simp: seek_text_def load_text_def not_finite_def)
  qed
  show ?thesis
    using assms(1)
  proof cases
    case (say_command c i)
    then show ?thesis using texts(2) [of c] by (auto simp: json_char_def)
  next
    case (say_seek i p)
    then show ?thesis using texts(3) nan by blast
  next
    case (say_load i p)
    then show ?thesis using texts(4) nan by blast
  qed (simp_all add: json_simple texts(1))
qed

lemma well_said:
  assumes "json_safe w" and "says w text"
  shows "well_sent tg (frame tg (message_for (dest w) (ns_strings ns) text))"
  using says_json [OF assms(2,1)] assms(1) unfolding well_sent_def json_safe_def by blast

lemma well_asked: "well_sent tg (bytes_of (get_request host path))"
  unfolding well_sent_def by blast

definition stays_clean :: "env \<Rightarrow> world \<Rightarrow> world \<Rightarrow> bool" where
  "stays_clean E w w' \<longleftrightarrow> (json_safe w \<longrightarrow> json_safe w' \<and>
     (\<exists>ms. sends w' = sends w @ ms \<and> list_all (well_sent (env_target E)) ms))"

lemma rest_of_texts:
  assumes "rest_of w' = rest_of w"
  shows "mediaSession w' = mediaSession w \<and> currentVideo w' = currentVideo w \<and> dest w' = dest w"
proof -
  have "mediaSession (rest_of v) = mediaSession v" "currentVideo (rest_of v) = currentVideo v" "dest (rest_of v) = dest v" for v
    by (simp_all add: rest_of_def core_def)
  with assms show ?thesis by metis
qed

lemma rest_of_json_safe: "rest_of w' = rest_of w \<Longrightarrow> json_safe w' = json_safe w"
  by (drule rest_of_texts) (simp add: json_safe_def)

lemma clean_append:
  assumes "rest_of w' = rest_of w" and "sends w' = sends w \<or> (\<exists>m. sends w' = sends w @ [m] \<and> (json_safe w \<longrightarrow> well_sent (env_target E) m))"
  shows "stays_clean E w w'"
  using assms(2) rest_of_json_safe [OF assms(1)] unfolding stays_clean_def
  by (metis append_Nil2 list.pred_inject)

interpretation clean: kept E "stays_clean E" for E
proof
  show "stays_clean E u w" if "stays_clean E u v" and "stays_clean E v w" for u v w
    using that unfolding stays_clean_def by (auto intro: exI [of _ "ms @ ns" for ms ns])
next
  show "stays_clean E w w'" if "spoken E w w'" for w w'
    using that unfolding spoken_def
    by (intro clean_append) (auto intro: well_said)
next
  show "stays_clean E w w'" if "asked w w'" for w w'
    using that unfolding asked_def by (intro clean_append) (auto intro: well_asked)
next
  show "stays_clean E w w'" if "rest_same w w'" for w w'
    using that unfolding rest_same_def by (intro clean_append) simp_all
qed (auto simp: stays_clean_def json_safe_def)

subsection \<open>Settings\<close>

text \<open>What the options and the library search decided.\<close>

definition settings :: "world \<Rightarrow> bool \<times> bool \<times> string list \<times> ssl_table" where
  "settings w = (s_verbose w, s_adblock w, s_categories w, ssl w)"

lemma rest_of_settings: "rest_of w' = rest_of w \<Longrightarrow> settings w' = settings w"
proof -
  have "settings (rest_of v) = settings v" for v by (simp add: settings_def rest_of_def core_def)
  then show "rest_of w' = rest_of w \<Longrightarrow> settings w' = settings w" by metis
qed

definition same_settings :: "world \<Rightarrow> world \<Rightarrow> bool" where
  "same_settings w w' \<longleftrightarrow> settings w' = settings w"

interpretation fixed: kept E same_settings for E
proof
  show "same_settings w w'" if "rest_same w w'" for w w'
    using that rest_of_settings unfolding rest_same_def same_settings_def by blast
next
  show "same_settings w w'" if "spoken E w w'" for w w'
    using that rest_of_settings unfolding spoken_def same_settings_def by blast
next
  show "same_settings w w'" if "asked w w'" for w w'
    using that rest_of_settings unfolding asked_def same_settings_def by blast
qed (simp_all add: same_settings_def settings_def)

subsection \<open>The world before the first message\<close>

lemma json_safe_fields [simp]:
  "json_safe (w\<lparr>s_verbose := b\<rparr>) = json_safe w" "json_safe (w\<lparr>s_adblock := b\<rparr>) = json_safe w"
  "json_safe (add_category c w) = json_safe w" "json_safe (emit e w) = json_safe w" "json_safe (puts s w) = json_safe w"
  "json_safe (snd (sys E a w)) = json_safe w" "json_safe (w\<lparr>ssl := t\<rparr>) = json_safe w"
  by (simp_all add: json_safe_def add_category_def)

lemma fold_keeps: "(\<And>x w. g (f x w) = g w) \<Longrightarrow> g (fold f xs w) = g w"
  by (induction xs arbitrary: w) simp_all

lemma funpow_keeps: "(\<And>w. g (f w) = g w) \<Longrightarrow> g ((f ^^ n) w) = g w"
  by (induction n) simp_all

lemma parse_args_json_safe: "json_safe (snd (parse_args prog args w)) = json_safe w"
  by (induction prog args w rule: parse_args.induct) (simp_all add: fold_keeps usage_def Let_def)

lemma parse_args_sends: "sends (snd (parse_args prog args w)) = sends w"
proof (cases "parse_args prog args w")
  case (Pair known w')
  then show ?thesis
    using parse_args_result [of prog args w w'] parse_args_refused [of prog args w w']
    by (cases known) (simp_all add: sends_def)
qed

lemma settings_output [simp]: "settings (emit e w) = settings w" "settings (puts s w) = settings w" "settings (snd (sys E a w)) = settings w"
  by (simp_all add: settings_def)

lemma show_categories_keeps:
  assumes "\<And>e w. g (emit e w) = g w" and "\<And>s w. g (puts s w) = g w"
  shows "g (show_categories w) = g w"
  unfolding show_categories_def by (simp add: assms fold_keeps [of g])

lemma show_categories_quiet:
  "sends (show_categories w) = sends w" "json_safe (show_categories w) = json_safe w" "settings (show_categories w) = settings w"
proof -
  have "sends (fold (\<lambda>c. out (c @ '' '')) cs w) = sends w" for cs w by (rule fold_keeps) simp
  then show "sends (show_categories w) = sends w" by (simp add: show_categories_def)
qed (rule show_categories_keeps; simp)+

lemma prepare_terminal_quiet:
  "sends (prepare_terminal E w) = sends w" "json_safe (prepare_terminal E w) = json_safe w"
  "settings (prepare_terminal E w) = settings w"
  unfolding prepare_terminal_def by (rule funpow_keeps, simp)+

lemma initial_world_clean: "json_safe (initial_world\<lparr>ssl := t\<rparr>)" "sends (initial_world\<lparr>ssl := t\<rparr>) = []"
  by (simp_all add: json_safe_def initial_world_def sends_def)

lemma main_run_clean:
  assumes "main_program L E n m prog args = Some (r, w')"
  shows "json_safe w' \<and> list_all (well_sent (env_target E)) (sends w')"
proof -
  obtain ok ext log where i: "initialize L (no_symbols, []) = (ok, ext, log)" by (cases "initialize L (no_symbols, [])")
  obtain known v where p: "parse_args prog args (initial_world\<lparr>ssl := ext\<rparr>) = (known, v)"
    by (cases "parse_args prog args (initial_world\<lparr>ssl := ext\<rparr>)")
  have v: "json_safe v" "sends v = []"
    using parse_args_json_safe [of prog args] parse_args_sends [of prog args] p initial_world_clean by (metis snd_conv)+
  consider "\<not> ok \<and> w' = initial_world" | "ok \<and> \<not> known \<and> w' = v"
    | w1 where "main_run E n m 0 (prepare_terminal E (show_categories v)) = Some (r, w1)"
        and "w' = (if r = None then w1 else restore_terminal E w1)"
    using assms by (auto simp: main_program_def i p Let_def split: bool.split_asm elim!: bind_SomeE)
  then show ?thesis
  proof cases
    case 1
    then show ?thesis by (simp add: json_safe_def initial_world_def sends_def)
  next
    case 2
    then show ?thesis using v by simp
  next
    case 3
    then have "json_safe w1 \<and> list_all (well_sent (env_target E)) (sends w1)"
      using clean.R_main_run [OF 3(1)] v
      by (auto simp: stays_clean_def prepare_terminal_quiet show_categories_quiet)
    then show ?thesis by (simp add: 3(2) restore_terminal_def)
  qed
qed


subsection \<open>A run to its first message\<close>

text \<open>The socket for the search fails, which goes unnoticed; the connection to no address comes up, and what
  is written to it is not taken.\<close>

definition first_message_env :: env where
  "first_message_env = (still_env 0 0)\<lparr>env_int := (\<lambda>t. if t = 5 then - 1 else if t = 14 then 1 else 0)\<rparr>"

lemma sys_first:
  "sys first_message_env a w = (a (tick w), w\<lparr>tick := tick w + 1\<rparr>)"
  by (simp add: sys_def first_message_env_def still_env_def)

lemma tick_output [simp]: "tick (emit e w) = tick w" "tick (puts s w) = tick w" "tick (cerr s w) = tick w"
  by (simp_all add: emit_def puts_def cerr_def)

lemma first_message:
  assumes "tick v = 5" and "s_running v" and "\<not> s_verbose v" and "all_resolved (ssl v)"
  shows "\<exists>r w'. main_run first_message_env n 1 0 v = Some (r, w') \<and>
    sends w' = sends v @ [frame tg0 (message_for [] (ns_strings NsConnection) (simple_msgs MsgConnect))]"
proof -
  let ?E = first_message_env
  let ?f = "frame tg0 (message_for [] (ns_strings NsConnection) (simple_msgs MsgConnect))"
  have E: "env_int ?E = (\<lambda>t. if t = 5 then - 1 else if t = 14 then 1 else 0)" "env_target ?E = tg0" "env_ptr ?E = (\<lambda>_. Some 1)"
    by (simp_all add: first_message_env_def still_env_def)
  let ?v = "v\<lparr>s_currentPosition := unset, nextSegmentStart := unset, s_lastPositionFetched := unset,
               currentVideo := [], mediaSession := [], dest := []\<rparr>"
  obtain v1 where find: "findChromecast ?E n no_address ?v = Some (Found True, no_address, v1)"
    and v1: "tick v1 = 6" "s_running v1" "sends v1 = sends v" "\<not> s_verbose v1" "ssl v1 = ssl v"
    using assms by (simp add: findChromecast_def openSocket_def sys_first E perror_def emit_def sends_def)
  let ?w = "(out (CHR 0x1B # ''[?25l'') v1)\<lparr>s_currentStatus := ''Connecting...'', dest := []\<rparr>"
  obtain c v2 where new: "new_connection ?E ?w = Some (c, v2)"
    and v2: "tick v2 = 10" "s_running v2" "sends v2 = sends v" "\<not> s_verbose v2" "ssl v2 = ssl v" "dest v2 = []"
    and c: "handle c = Some 1" "ctx c = Some 1"
    using assms(4) v1 by (auto simp: new_connection_def ssl_wrappers through_def sys_first E all_resolved_def emit_def sends_def)
  obtain c' v3 where conn: "connect ?E c no_address v2 = Some (True, c', v3)" and c': "handle c' = Some 1" "ctx c' = Some 1" "fd c' = 0"
    and v3: "tick v3 = 15" "s_running v3" "sends v3 = sends v" "\<not> s_verbose v3" "ssl v3 = ssl v" "dest v3 = []"
    using assms(4) v2 c by (auto simp: connect_def ssl_wrappers through_def sys_first E all_resolved_def emit_def sends_def)
  have "cast_clean (message_for [] (ns_strings NsConnection) (simple_msgs MsgConnect))"
    by (rule cast_clean_message) simp_all
  then have "cast_writable (message_for (dest v3) (ns_strings NsConnection) (simple_msgs MsgConnect))"
    by (simp add: v3 cast_clean_writable)
  moreover have "EXT_SSL_write (ssl v3) \<noteq> None" using assms(4) v3 by (simp add: all_resolved_def)
  moreover have "length ?f \<noteq> 0" by (simp add: frame_def)
  ultimately obtain v4 where say: "sendSimple ?E MsgConnect NsConnection v3 = Some (False, v4)"
    and v4: "sends v4 = sends v @ [?f]" "ssl v4 = ssl v"
    using sendMessage_writable [of v3 "ns_strings NsConnection" "simple_msgs MsgConnect" ?E] v3
    by (auto simp: sendSimple_def E dest!: core_eqD(19))
  have start: "loop_start ?E c no_address v2 = Some (Return (errno v4), c', puts ''Failed to send connect message'' v4)"
    using conn say v3 by (simp add: loop_start_def Let_def puts_def emit_def)
  obtain v5 where "delete_connection ?E c' (puts ''Failed to send connect message'' v4) = Some ((), v5)"
    and v5: "sends v5 = sends v @ [?f]"
    using assms(4) v4 c' by (auto simp: delete_connection_def ssl_wrappers through_def sys_first all_resolved_def puts_def emit_def sends_def)
  then have "loop ?E n no_address ((out (CHR 0x1B # ''[?25l'') v1)\<lparr>s_currentStatus := ''Connecting...''\<rparr>) =
      Some (Return (errno v4), v5)"
    using new start v1 by (simp add: loop_def)
  then have "main_step ?E n 0 v = Some (Some (Again, errno v4), v5)"
    using find by (simp add: main_step_def)
  then show ?thesis using assms(2) v5 by simp
qed


subsection \<open>Properties\<close>

text \<open>C2. Whatever the device, the server of the segments, the user and the signals do, the program only ever
  sends two things: HTTP requests, and frames of messages to a destination without a quote whose text is
  JSON. Nothing taken from the network can break out of the quotes it is put in. (The one exception is a
  position that is no finite number, printed as \<open>inf\<close> or \<open>nan\<close>.)\<close>

theorem program_sends_only_json:
  assumes "main_program L E n m prog args = Some (r, w')"
  shows "json_safe w' \<and> list_all (well_sent (env_target E)) (sends w')"
  using assms by (rule main_run_clean)

theorem program_sends_only_json_witness:
  "\<exists>r w'. main_program (one_library ''/lib/libssl.so'') first_message_env 9 1 ''sponsoryeet'' [] = Some (r, w') \<and>
    length (sends w') = 1 \<and> list_all (well_sent tg0) (sends w')"
proof -
  let ?L = "one_library ''/lib/libssl.so''" and ?E = first_message_env
  obtain log where init: "initialize ?L (no_symbols, []) = (True, (table_of ?L 7, log))"
    by (simp add: initialize_first candidates_def one_library_def dirs_def libs_def attemptOpen_def
        resolveSymbols_def resolve_symbol_def all_resolved_def libraryInit_def table_of_def)
  define v where "v = prepare_terminal ?E (show_categories (initial_world\<lparr>ssl := table_of ?L 7\<rparr>))"
  have "tick v = 5 \<and> s_running v \<and> \<not> s_verbose v \<and> ssl v = table_of ?L 7 \<and> sends v = []"
    by (simp add: v_def prepare_terminal_def show_categories_def initial_world_def eval_nat_numeral sys_first sends_def)
  moreover have "all_resolved (table_of ?L 7)"
    by (simp add: all_resolved_def table_of_def one_library_def)
  ultimately obtain r w1 where run: "main_run ?E 9 1 0 v = Some (r, w1)" and one: "length (sends w1) = 1"
    using first_message [of v 9] by auto
  have "main_program ?L ?E 9 1 ''sponsoryeet'' [] =
      Some (r, if r = None then w1 else restore_terminal ?E w1)"
    using init run by (simp add: main_program_def v_def Let_def)
  from this program_sends_only_json [OF this] one show ?thesis
    by (auto simp: first_message_env_def still_env_def restore_terminal_def)
qed

text \<open>C29. The options hold for the whole run: whatever happens in between, neither the two switches nor the
  categories nor the library's entry points change once \<open>main\<close> is in its loop.\<close>

theorem options_hold:
  assumes "main_run E n m ret w = Some (r, w')"
  shows "s_verbose w' = s_verbose w \<and> s_adblock w' = s_adblock w \<and> s_categories w' = s_categories w \<and> ssl w' = ssl w"
  using fixed.R_main_run [OF assms] by (simp add: same_settings_def settings_def)

theorem options_hold_witness:
  "\<exists>r w'. main_run first_message_env 3 1 0 (linked_world\<lparr>tick := 5, s_adblock := True\<rparr>) = Some (r, w') \<and> s_adblock w' \<and> ssl w' = linked"
proof -
  let ?w = "linked_world\<lparr>tick := 5, s_adblock := True\<rparr>"
  obtain r w' where run: "main_run first_message_env 3 1 0 ?w = Some (r, w')"
    using first_message [of ?w 3] by (auto simp: linked_world_def linked_def all_resolved_def)
  from options_hold [OF this] run show ?thesis by (auto simp: linked_world_def)
qed

end
