(* ===== verification/Reaction.thy ===== *)
theory Reaction
  imports Speech
begin

text \<open>
  How the program reacts: to a segment that is playing, to the messages of the device, to keys, to
  silence. The properties of \<open>handleMessage\<close> and of the passes of \<open>loop\<close>.
\<close>

subsection \<open>A segment that is playing\<close>

abbreviation whole :: "int \<Rightarrow> dbl" where
  "whole i \<equiv> Fin (of_int i)"

definition whole_segment :: "segment \<Rightarrow> bool" where
  "whole_segment s \<longleftrightarrow> (\<exists>b e. s = \<lparr>seg_begin = whole b, seg_end = whole e\<rparr> \<and> \<bar>b\<bar> < 2 ^ 31 \<and> \<bar>e\<bar> < 2 ^ 31)"

definition inside :: "int \<Rightarrow> segment \<Rightarrow> bool" where
  "inside p s \<longleftrightarrow> val (seg_begin s) < of_int p \<and> of_int p < val (seg_end s)"

lemma segment_end_after_whole:
  assumes "\<bar>p\<bar> < 2 ^ 31" and "list_all whole_segment segs" and "\<exists>s \<in> set segs. inside p s"
  shows "\<exists>s \<in> set segs. inside p s \<and> segment_end_after p segs = Some (seg_end s)"
  using assms(2,3)
proof (induction segs)
  case (Cons s segs)
  obtain b e where s: "s = \<lparr>seg_begin = whole b, seg_end = whole e\<rparr>" "\<bar>b\<bar> < 2 ^ 31" "\<bar>e\<bar> < 2 ^ 31"
    using Cons.prems(1) by (auto simp: whole_segment_def)
  have e: "to_int (seg_end s) = Some e" using s to_int_int [of e] by (auto simp: int_ok_def abs_less_iff)
  have b: "dlt (seg_begin s) (of_integer p) \<longleftrightarrow> b < p"
    using assms(1) s(1) of_integer_small [of p] by (simp add: dlt_finite)
  have i: "inside p s \<longleftrightarrow> b < p \<and> p < e" using s(1) by (simp add: inside_def)
  show ?case
  proof (cases "inside p s")
    case True
    then show ?thesis using e b i by simp
  next
    case False
    then have "segment_end_after p (s # segs) = segment_end_after p segs" using e b i by (auto simp: not_le)
    then show ?thesis using Cons False by auto
  qed
qed simp

lemma playing_segment_seek:
  assumes "currentlyPlaying w" and "currentVideo w \<noteq> []" and "fst (currentPosition E w) = whole p" and "0 \<le> p" and "p < 2 ^ 31"
    and "list_all whole_segment (currentSegments w)" and "\<exists>s \<in> set (currentSegments w). inside p s"
    and "\<And>t. s_lastSeek w < env_time E t"
    and "EXT_SSL_write (ssl w) \<noteq> None" and "mediaSession w \<noteq> []" and "int_ok (s_requestId w + 1)"
    and "ascii (mediaSession w)" and "ascii (dest w)"
  shows "\<exists>w' s. maybeSeek E w = Some ((), w') \<and> s \<in> set (currentSegments w) \<and> inside p s \<and>
    sends w' = sends w @ [frame (env_target E) (message_for (dest w) (ns_strings NsMedia)
      (seek_text (dec_int (s_requestId w)) (mediaSession w) (seg_end s)))]"
proof -
  obtain v where v: "currentPosition E w = (whole p, v)" using assms(3) by (metis prod.collapse)
  note core = currentPosition_core [OF v]
  note f = core_eqD [OF core [THEN conjunct1]]
  have "\<bar>p\<bar> < 2 ^ 31" using assms(4,5) by simp
  from segment_end_after_whole [OF this assms(6,7)] obtain s where
    s: "s \<in> set (currentSegments w)" "inside p s" "segment_end_after p (currentSegments w) = Some (seg_end s)" by blast
  have "to_int (ceil_dbl (whole p)) = Some p"
    using assms(4,5) to_int_int [of p] ceil_dbl_int [of p] by (simp add: int_ok_def)
  moreover have "currentSegments w \<noteq> []" using s(1) by auto
  ultimately have e: "currentSegmentEnd E w = Some (seg_end s, v)"
    using v f(4) s(3) assms(4) by (simp add: currentSegmentEnd_def)
  obtain b k where "s = \<lparr>seg_begin = whole b, seg_end = whole k\<rparr>"
    using assms(6) s(1) by (auto simp: list_all_iff whole_segment_def)
  then have nonneg: "\<not> dlt (seg_end s) (Fin 0)" using s(2) assms(4) by (auto simp: inside_def dlt_finite)
  define v2 where "v2 = (if s_verbose v
      then (let (position, w) = currentPosition E v
            in puts (''Current segment ends at: '' @ fmt_f (seg_end s) @ '', position at '' @ fmt_f position) w)
      else v)"
  have v2: "core v2 = core w" "sends v2 = sends w"
    using core by (auto simp: v2_def split: prod.splits dest: currentPosition_core)
  note f2 = core_eqD [OF v2(1)]
  have m: "maybeSeek E w = skip_to E (seg_end s) v2"
    using assms(2) \<open>currentSegments w \<noteq> []\<close> e nonneg by (simp add: maybeSeek_def Let_def v2_def)
  obtain n3 v3 where t3: "time E v2 = (n3, v3)" by (cases "time E v2")
  obtain n4 v4 where t4: "time E v3 = (n4, v4)" by (cases "time E v3")
  note n3 = time_eq [OF t3] and n4 = time_eq [OF t4]
  have c4: "core v4 = core w" using n3 n4 v2 by simp
  define x where "x = (puts ''Skipping sponsor...'' (v4\<lparr>s_lastSeek := n4\<rparr>))
      \<lparr>s_currentPosition := unset, nextSegmentStart := unset, s_lastPositionFetched := unset\<rparr>"
  have x: "ssl x = ssl w" "mediaSession x = mediaSession w" "s_requestId x = s_requestId w" "dest x = dest w" "sends x = sends w"
    using core_eqD [OF c4] n3 n4 v2 by (simp_all add: x_def puts_def emit_def sends_def)
  then obtain ok w' where w': "seek E (seg_end s) x = Some (ok, w')" "sends w' \<noteq> sends w"
    using seek_defined [of x E "seg_end s"] assms(9-13) by auto
  have "s_lastSeek v3 = s_lastSeek w" using core_eqD(11) n3 v2 by metis
  then have "\<not> n3 - s_lastSeek v3 < 1" using assms(8) [of "tick v2"] n3 by simp
  then have "skip_to E (seg_end s) v2 = Some ((), w')"
    using f2(10) assms(1) t3 t4 w'(1) by (simp add: skip_to_def x_def)
  then show ?thesis using m s(1,2) seek_sends [OF w'(1)] w'(2) x by auto
qed


subsection \<open>The first occurrence of a key\<close>

lemma key_skip:
  assumes "CHR 0x22 \<notin> set v"
  shows "sublist (quoted key) (v @ s) \<longleftrightarrow> sublist (quoted key) s"
  using assms by (induction v) (simp_all add: sublist_Cons_right quoted_def)

lemma key_char: "c \<noteq> CHR 0x22 \<Longrightarrow> sublist (quoted key) (c # s) \<longleftrightarrow> sublist (quoted key) s"
  using key_skip [of "[c]"] by simp

lemma key_quote: "sublist (quoted key) (CHR 0x22 # s) \<longleftrightarrow> prefix (key @ [CHR 0x22]) s \<or> sublist (quoted key) s"
  by (simp add: sublist_Cons_right quoted_def)

lemma prefix_to_quote:
  "CHR 0x22 \<notin> set key \<Longrightarrow> CHR 0x22 \<notin> set v \<Longrightarrow> prefix (key @ [CHR 0x22]) (v @ CHR 0x22 # s) \<longleftrightarrow> v = key"
  by (induction key v rule: list_induct2') auto

lemma key_quoted:
  assumes "CHR 0x22 \<notin> set key" and "CHR 0x22 \<notin> set v" and "v \<noteq> key"
  shows "sublist (quoted key) (quoted v @ s) \<longleftrightarrow> sublist (quoted key) (CHR 0x22 # s)"
  using prefix_to_quote [OF assms(1,2)] assms(2,3) key_skip [OF assms(2), of key "CHR 0x22 # s"]
  unfolding quoted_def [of v] by (simp add: key_quote)

lemma key_end: "\<not> sublist (quoted key) []"
  by (simp add: quoted_def)

lemma butlast_quoted: "butlast (quoted key) = CHR 0x22 # key"
  by (simp add: quoted_def)

lemma no_quote_in_digits: "list_all is_digit v \<Longrightarrow> CHR 0x22 \<notin> set v"
  by (auto simp: list_all_iff is_digit_def)

lemma extract_bare:
  assumes "plain key" and "bracket_text cls c" and "\<not> sublist (quoted key) (pre @ butlast (quoted key))"
    and "v \<noteq> []" and "list_all (class_has c) v" and "\<not> is_space (hd v)" and "\<not> class_has c x"
  shows "regexExtract (bare_value key cls) (pre @ quoted key @ CHR '':'' # v @ x # post) = Some v"
  using extract_bare_value [OF assms(3), of "[]" "[]" v c "x # post"] assms re_compile_bare_value [OF assms(1,2)]
  by (simp add: regexExtract_def spaces_def)

lemma extract_quoted:
  assumes "plain key" and "bracket_text cls c" and "\<not> sublist (quoted key) (pre @ butlast (quoted key))"
    and "v \<noteq> []" and "list_all (class_has c) v" and "\<not> class_has c CHR 0x22"
  shows "regexExtract (quoted_value key cls) (pre @ quoted key @ CHR '':'' # quoted v @ post) = Some v"
  using extract_quoted_value [OF assms(3), of "[]" "[]" v c post] assms re_compile_quoted_value [OF assms(1,2)]
  by (simp add: regexExtract_def spaces_def)

lemmas key_search = key_skip [OF no_quote_in_digits [OF is_digit_dec]] key_char key_quote key_quoted key_end butlast_quoted

subsection \<open>A status of the device\<close>

text \<open>A \<open>MEDIA_STATUS\<close> as a device sends it.\<close>

definition status_head :: "nat \<Rightarrow> string" where
  "status_head session =
     ''{'' @ quoted ''type'' @ '':'' @ quoted ''MEDIA_STATUS'' @ '','' @ quoted ''status'' @ '':[{'' @
     quoted ''mediaSessionId'' @ '':'' @ dec session @ '','' @ quoted ''playbackRate'' @ '':1,''"

definition status_text :: "nat \<Rightarrow> string \<Rightarrow> nat \<Rightarrow> string \<Rightarrow> nat \<Rightarrow> string" where
  "status_text session state position video duration =
     status_head session @ quoted ''playerState'' @ '':'' @ quoted state @ '','' @
     quoted ''currentTime'' @ '':'' @ dec position @ '','' @ quoted ''supportedMediaCommands'' @ '':15,'' @
     quoted ''media'' @ '':{'' @ quoted ''contentId'' @ '':'' @ quoted video @ '','' @
     quoted ''streamType'' @ '':'' @ quoted ''BUFFERED'' @ '','' @
     quoted ''contentType'' @ '':'' @ quoted ''x-youtube/video'' @ '','' @
     quoted ''duration'' @ '':'' @ dec duration @ ''}}],'' @ quoted ''requestId'' @ '':0}''"

lemma quoted_not_Nil: "quoted v \<noteq> []"
  by (simp add: quoted_def)

lemma video_no_quote: "list_all (class_has video_chars) v \<Longrightarrow> CHR 0x22 \<notin> set v"
  by (auto simp: list_all_iff video_chars_def in_range_def)

lemma digit_classes:
  "list_all (class_has digits) (dec n)" "list_all (class_has digits_dot) (dec n)" "\<not> is_space (hd (dec n))"
  "\<not> class_has digits CHR '',''" "\<not> class_has digits_dot CHR '',''" "\<not> class_has digits_dot CHR ''}''"
  "\<not> class_has not_quote CHR 0x22" "\<not> class_has capitals CHR 0x22" "\<not> class_has video_chars CHR 0x22"
proof -
  show "list_all (class_has digits) (dec n)" "list_all (class_has digits_dot) (dec n)"
    using is_digit_dec [of n] by (auto simp: list_all_iff class_has_digits class_has_digits_dot)
  have "is_digit (hd (dec n))" using is_digit_dec [of n] by (cases "dec n") auto
  then show "\<not> is_space (hd (dec n))" by (auto simp: is_space_def is_digit_def)
qed (simp_all add: class_has_digits class_has_digits_dot class_has_not_quote capitals_def video_chars_def in_range_def is_digit_def)

lemma status_values:
  fixes session position duration :: nat and state video :: string
  defines "t \<equiv> status_text session state position video duration"
  assumes state: "state \<in> {''PLAYING'', ''PAUSED'', ''BUFFERING'', ''IDLE''}"
    and video: "list_all (class_has video_chars) video" "video \<noteq> []" "video \<noteq> ''duration''"
  shows "regexExtract pat_type t = Some ''MEDIA_STATUS''"
    and "regexExtract pat_mediaSessionId t = Some (dec session)"
    and "regexExtract pat_playerState t = Some state"
    and "regexExtract pat_currentTime t = Some (dec position)"
    and "regexExtract pat_contentId t = Some video"
    and "regexExtract pat_duration t = Some (dec duration)"
proof -
  note pats = pat_type_def pat_mediaSessionId_def pat_playerState_def pat_currentTime_def pat_contentId_def
    pat_duration_def bare_value_def quoted_value_def status_text_def status_head_def t_def
  note keys = key_search status_head_def plain_def special_def digit_classes quoted_not_Nil video_no_quote class_has_not_quote capitals_def in_range_def
  have "regexExtract (quoted_value ''type'' (''[^'' @ CHR 0x22 # '']'')) ((''{'') @ quoted ''type'' @ CHR '':'' # quoted ''MEDIA_STATUS'' @ post) = Some ''MEDIA_STATUS''" for post
    by (rule extract_quoted [OF _ bracket_texts(1)]) (use state video in \<open>auto simp: keys\<close>)
  from this show "regexExtract pat_type t = Some ''MEDIA_STATUS''"
    by (simp add: pats)
  have "regexExtract (bare_value ''mediaSessionId'' ''[0-9]'') ((''{'' @ quoted ''type'' @ '':'' @ quoted ''MEDIA_STATUS'' @ '','' @ quoted ''status'' @ '':[{'') @ quoted ''mediaSessionId'' @ CHR '':'' # dec session @ CHR '','' # post) = Some (dec session)" for post
    by (rule extract_bare [OF _ bracket_texts(3)]) (use state video in \<open>auto simp: keys\<close>)
  from this show "regexExtract pat_mediaSessionId t = Some (dec session)"
    by (simp add: pats)
  have "regexExtract (quoted_value ''playerState'' ''[A-Z]'') ((status_head session) @ quoted ''playerState'' @ CHR '':'' # quoted state @ post) = Some state" for post
    by (rule extract_quoted [OF _ bracket_texts(2)]) (use state video in \<open>auto simp: keys\<close>)
  from this show "regexExtract pat_playerState t = Some state"
    by (simp add: pats)
  have "regexExtract (bare_value ''currentTime'' ''[0-9.]'') ((status_head session @ quoted ''playerState'' @ '':'' @ quoted state @ '','') @ quoted ''currentTime'' @ CHR '':'' # dec position @ CHR '','' # post) = Some (dec position)" for post
    by (rule extract_bare [OF _ bracket_texts(4)]) (use state video in \<open>auto simp: keys\<close>)
  from this show "regexExtract pat_currentTime t = Some (dec position)"
    by (simp add: pats)
  have "regexExtract (quoted_value ''contentId'' ''[A-Za-z0-9_-]'') ((status_head session @ quoted ''playerState'' @ '':'' @ quoted state @ '','' @ quoted ''currentTime'' @ '':'' @ dec position @ '','' @ quoted ''supportedMediaCommands'' @ '':15,'' @ quoted ''media'' @ '':{'') @ quoted ''contentId'' @ CHR '':'' # quoted video @ post) = Some video" for post
    by (rule extract_quoted [OF _ bracket_texts(5)]) (use state video in \<open>auto simp: keys\<close>)
  from this show "regexExtract pat_contentId t = Some video"
    by (simp add: pats)
  have "regexExtract (bare_value ''duration'' ''[0-9.]'') ((status_head session @ quoted ''playerState'' @ '':'' @ quoted state @ '','' @ quoted ''currentTime'' @ '':'' @ dec position @ '','' @ quoted ''supportedMediaCommands'' @ '':15,'' @ quoted ''media'' @ '':{'' @ quoted ''contentId'' @ '':'' @ quoted video @ '','' @ quoted ''streamType'' @ '':'' @ quoted ''BUFFERED'' @ '','' @ quoted ''contentType'' @ '':'' @ quoted ''x-youtube/video'' @ '','') @ quoted ''duration'' @ CHR '':'' # dec duration @ CHR ''}'' # post) = Some (dec duration)" for post
    by (rule extract_bare [OF _ bracket_texts(4)]) (use state video in \<open>auto simp: keys\<close>)
  from this show "regexExtract pat_duration t = Some (dec duration)"
    by (simp add: pats)
qed


lemma core_fields:
  "core (w\<lparr>currentDuration := x\<rparr>) = (core w)\<lparr>currentDuration := x\<rparr>"
  "core (w\<lparr>s_currentPosition := x\<rparr>) = (core w)\<lparr>s_currentPosition := x\<rparr>"
  "core (w\<lparr>s_lastPositionFetched := x\<rparr>) = (core w)\<lparr>s_lastPositionFetched := x\<rparr>"
  "core (w\<lparr>currentlyPlaying := b\<rparr>) = (core w)\<lparr>currentlyPlaying := b\<rparr>"
  "core (w\<lparr>s_currentStatus := s\<rparr>) = (core w)\<lparr>s_currentStatus := s\<rparr>"
  "core (w\<lparr>mediaSession := s\<rparr>) = (core w)\<lparr>mediaSession := s\<rparr>"
  "core (w\<lparr>nextSegmentStart := x\<rparr>) = (core w)\<lparr>nextSegmentStart := x\<rparr>"
  "core (w\<lparr>s_lastPing := i\<rparr>) = (core w)\<lparr>s_lastPing := i\<rparr>"
  by (simp_all add: core_def)

lemma extractNumber_dec:
  assumes "regexExtract re t = Some (dec n)" and "0 < n" and "n < 2 ^ 53" and "errno w \<noteq> ERANGE"
  shows "extractNumber re t w = Some (Some (whole (int n)), w)"
  using assms strtod_small [of n] until_nul_digits [OF is_digit_dec, of n] dec_not_Nil [of n, symmetric]
  by (simp add: extractNumber_def)

text \<open>The state after a status.\<close>

definition as_reported :: "int \<Rightarrow> nat \<Rightarrow> string \<Rightarrow> nat \<Rightarrow> nat \<Rightarrow> world \<Rightarrow> world" where
  "as_reported now session state position duration w =
     w\<lparr>currentDuration := whole (int duration), s_currentPosition := whole (int position),
       s_lastPositionFetched := of_integer now, currentlyPlaying := (state = ''PLAYING''), s_currentStatus := state,
       mediaSession := dec session\<rparr>"

lemma read_status_text:
  assumes state: "state \<in> {''PLAYING'', ''PAUSED'', ''BUFFERING'', ''IDLE''}"
    and video: "list_all (class_has video_chars) video" "video \<noteq> []" "video \<noteq> ''duration''"
    and position: "0 < position" "position < 2 ^ 53" and duration: "0 < duration" "duration < 2 ^ 53"
    and "errno w \<noteq> ERANGE"
  shows "\<exists>w'. read_status E (status_text session state position video duration) w = Some ((), w') \<and>
    core w' = as_reported (env_time E (tick w)) session state position duration (core w) \<and> sends w' = sends w"
proof -
  let ?t = "status_text session state position video duration"
  note vals = status_values [OF state video, of session position duration]
  let ?v = "w\<lparr>currentDuration := whole (int duration)\<rparr>"
  have 1: "extractNumber pat_duration ?t w = Some (Some (whole (int duration)), w)"
    using extractNumber_dec [OF vals(6) duration] assms by blast
  have 2: "extractNumber pat_currentTime ?t ?v = Some (Some (whole (int position)), ?v)"
    using extractNumber_dec [OF vals(4) position, of ?v] assms by simp
  obtain now v where t: "time E (?v\<lparr>s_currentPosition := whole (int position)\<rparr>) = (now, v)" by fastforce
  note v = time_eq [OF t]
  define u where "u = v\<lparr>s_lastPositionFetched := of_integer now, currentlyPlaying := (state = ''PLAYING''), s_currentStatus := state\<rparr>"
  have "state \<noteq> []" using state by auto
  have "read_status E ?t w = Some ((), (when_verbose (puts (''Got media session '' @ dec session)) u)\<lparr>mediaSession := dec session\<rparr>)"
    by (simp only: read_status_def 1 2 t vals Let_def u_def Option.bind.bind_lunit prod.case option.case dec_not_Nil
        \<open>state \<noteq> []\<close> not_False_eq_True if_True)
  moreover have "now = env_time E (tick w)" "sends u = sends w"
    "(core u)\<lparr>mediaSession := dec session\<rparr> = as_reported now session state position duration (core w)"
    using v by (simp_all add: u_def core_fields as_reported_def sends_def [of "currentDuration_update f w" for f w])
  ultimately show ?thesis by (auto simp: core_fields)
qed

lemma same_video:
  assumes "regexExtract pat_contentId t = Some (currentVideo w)"
  shows "\<exists>w'. update_video E t w = Some ((), w') \<and> quiet w w'"
  using assms by (auto simp: update_video_def Let_def)

lemma pat_customState_compiles: "\<exists>st. regexExtract pat_customState t = Some st"
proof -
  have "re_compile pat_customState \<noteq> None" by code_simp
  then show ?thesis by (auto simp: regexExtract_def)
qed

lemma no_ad_skipped:
  assumes "\<not> s_adblock w"
  shows "\<exists>w'. skip_ad E t w = Some ((), w') \<and> quiet w w'"
proof -
  obtain st where "regexExtract pat_customState t = Some st" using pat_customState_compiles by blast
  then show ?thesis using assms by (auto simp: skip_ad_def Let_def)
qed

lemma schedule_skip_maybeSeek:
  assumes "currentSegments w \<noteq> []"
  shows "\<exists>v x. schedule_skip E w = maybeSeek E v \<and> core v = (core w)\<lparr>nextSegmentStart := x\<rparr> \<and> sends v = sends w"
proof -
  obtain delta w1 where d: "secondsUntilNextSegment E w = (delta, w1)" by fastforce
  define w2 where "w2 = when_verbose (puts (''time to next segment: '' @ fmt_g delta)) w1"
  obtain now w3 where t: "time E w2 = (now, w3)" by fastforce
  define v where "v = (if dle (Fin 0) delta then w3\<lparr>nextSegmentStart := add (of_integer now) delta\<rparr> else w2)"
  have "schedule_skip E w = maybeSeek E v"
    using assms by (simp add: schedule_skip_def d Let_def w2_def [symmetric] t v_def)
  moreover have w2: "quiet w w2" using secondsUntil_core [OF d] by (simp add: w2_def)
  have "(core w)\<lparr>nextSegmentStart := nextSegmentStart w2\<rparr> = core w"
    using core_eqD(5) [OF w2 [THEN conjunct1]] by (simp add: core_def)
  then have "core v = (core w)\<lparr>nextSegmentStart := nextSegmentStart v\<rparr> \<and> sends v = sends w"
    using time_eq [OF t] w2 by (simp add: v_def core_fields)
  ultimately show ?thesis by blast
qed

lemma status_seek:
  assumes state: "state = ''PLAYING''"
    and video: "list_all (class_has video_chars) video" "video \<noteq> []" "video \<noteq> ''duration''"
    and position: "0 < position" "position < 2 ^ 31" and duration: "0 < duration" "duration < 2 ^ 53"
    and erange: "errno w \<noteq> ERANGE" and youtube: "s_youtube w" "currentVideo w = video" "\<not> s_adblock w"
    and clock: "\<And>t. env_time E t = now" "\<bar>now\<bar> < 2 ^ 51" "s_lastSeek w < now"
    and segments: "list_all whole_segment (currentSegments w)" "\<exists>s \<in> set (currentSegments w). inside (int position) s"
    and say: "EXT_SSL_write (ssl w) \<noteq> None" "int_ok (s_requestId w + 1)" "ascii (dest w)"
  shows "\<exists>w' s. media_status E (status_text session state position video duration) w = Some (True, w') \<and>
    s \<in> set (currentSegments w) \<and> inside (int position) s \<and>
    sends w' = sends w @ [frame (env_target E) (message_for (dest w) (ns_strings NsMedia)
      (seek_text (dec_int (s_requestId w)) (dec session) (seg_end s)))]"
proof -
  let ?t = "status_text session state position video duration"
  have st: "state \<in> {''PLAYING'', ''PAUSED'', ''BUFFERING'', ''IDLE''}" using state by simp
  note vals = status_values [OF st video, of session position duration]
  obtain w1 where 1: "read_status E ?t w = Some ((), w1)"
    and w1: "core w1 = as_reported now session state position duration (core w)" "sends w1 = sends w"
    using read_status_text [OF st video position(1) _ duration erange, of E session] position(2) clock(1) by auto
  have f1: "s_youtube w1 = s_youtube w" "s_adblock w1 = s_adblock w" "currentVideo w1 = currentVideo w"
    "currentSegments w1 = currentSegments w" "dest w1 = dest w" "s_lastSeek w1 = s_lastSeek w"
    "s_requestId w1 = s_requestId w" "ssl w1 = ssl w" "mediaSession w1 = dec session" "currentlyPlaying w1"
    "s_currentPosition w1 = whole (int position)" "s_lastPositionFetched w1 = of_integer now"
    by (simp_all only: core_sel [symmetric, of w1] w1(1)) (simp_all add: as_reported_def core_sel state)
  obtain w2 where 2: "update_video E ?t w1 = Some ((), w2)" and w2: "quiet w1 w2"
    using same_video [of ?t w1] vals(5) f1(3) youtube(2) by auto
  note f2 = core_eqD [OF w2 [THEN conjunct1]]
  have "currentSegments w2 \<noteq> []" using segments(2) f1(4) f2(4) by auto
  then obtain v x where 3: "schedule_skip E w2 = maybeSeek E v"
    and v: "core v = (core w2)\<lparr>nextSegmentStart := x\<rparr>" "sends v = sends w2"
    using schedule_skip_maybeSeek by blast
  have f3: "currentVideo v = video" "currentSegments v = currentSegments w" "dest v = dest w" "s_lastSeek v = s_lastSeek w"
    "s_requestId v = s_requestId w" "ssl v = ssl w" "mediaSession v = dec session" "currentlyPlaying v" "s_adblock v = s_adblock w"
    "s_currentPosition v = whole (int position)" "s_lastPositionFetched v = of_integer now"
    by (simp_all only: core_sel [symmetric, of v] v(1)) (simp_all add: core_sel f1 f2 youtube(2))
  have "fst (currentPosition E v) = whole (int position)"
    using whole_position [OF f3(10), of now] f3(11) clock position by (simp add: of_integer_small)
  then obtain w4 s where 4: "maybeSeek E v = Some ((), w4)" and s: "s \<in> set (currentSegments w)" "inside (int position) s"
    and sent: "sends w4 = sends w @ [frame (env_target E) (message_for (dest w) (ns_strings NsMedia)
      (seek_text (dec_int (s_requestId w)) (dec session) (seg_end s)))]"
    using playing_segment_seek [of v E "int position"] f3 video segments clock position say w1(2) w2 v(2)
    by auto
  have "settings w4 = settings v" using fixed.R_maybeSeek [OF 4] by (simp add: same_settings_def)
  then have "\<not> s_adblock w4" using f3(9) youtube(3) by (simp add: settings_def)
  then obtain w5 where 5: "skip_ad E ?t w4 = Some ((), w5)" "quiet w4 w5" using no_ad_skipped by blast
  have "media_status E ?t w = Some (True, w5)"
    using 1 2 3 4 5 f1(1) youtube(1) by (simp add: media_status_def)
  then show ?thesis using s sent 5(2) by auto
qed


subsection \<open>Messages\<close>

lemma handle_parsed:
  assumes "cast_parse (env_target E) (bytes_of buffer) = Got m" and "payload_utf8 m \<noteq> []"
  shows "handleMessage E buffer w = handle_payload E m w"
  using assms by (simp add: handleMessage_def)

lemma puts_rest [simp]: "errno (puts s w) = errno w" "tick (puts s w) = tick w" "s_running (puts s w) = s_running w"
  by (simp_all add: puts_def emit_def)

lemma status_handled:
  assumes buffer: "cast_parse (env_target E) (bytes_of buffer) = Got m"
    and payload: "payload_utf8 m = status_text session ''PLAYING'' position video duration"
    and video: "list_all (class_has video_chars) video" "video \<noteq> []" "video \<noteq> ''duration''"
    and position: "0 < position" "position < 2 ^ 31" and duration: "0 < duration" "duration < 2 ^ 53"
    and erange: "errno w \<noteq> ERANGE" and youtube: "s_youtube w" "currentVideo w = video" "\<not> s_adblock w"
    and clock: "\<And>t. env_time E t = now" "\<bar>now\<bar> < 2 ^ 51" "s_lastSeek w < now"
    and segments: "list_all whole_segment (currentSegments w)" "\<exists>s \<in> set (currentSegments w). inside (int position) s"
    and say: "EXT_SSL_write (ssl w) \<noteq> None" "int_ok (s_requestId w + 1)" "ascii (dest w)"
  shows "\<exists>w' s. handleMessage E buffer w = Some (True, w') \<and>
    s \<in> set (currentSegments w) \<and> inside (int position) s \<and>
    sends w' = sends w @ [frame (env_target E) (message_for (dest w) (ns_strings NsMedia)
      (seek_text (dec_int (s_requestId w)) (dec session) (seg_end s)))]"
proof -
  let ?t = "status_text session ''PLAYING'' position video duration"
  define v where "v = when_verbose (puts (from_to m)) w"
  have v: "quiet w v" "errno v = errno w" by (simp_all add: v_def)
  note f = core_eqD [OF v(1) [THEN conjunct1]]
  have "regexExtract pat_type ?t = Some ''MEDIA_STATUS''" using status_values(1) [OF _ video] by simp
  then have "handleMessage E buffer w = media_status E ?t v"
    using handle_parsed [OF buffer] payload by (simp add: status_text_def status_head_def handle_payload_def Let_def v_def)
  then show ?thesis
    using status_seek [OF refl video position duration, of v E now session] assms(9-) v f by simp
qed

lemma type_of_simple: "regexExtract pat_type (simple_msgs MsgPing) = Some ''PING''"
proof -
  have "\<not> sublist (quoted ''type'') (''{'' @ butlast (quoted ''type''))" by (simp add: key_search quoted_not_Nil)
  from extract_quoted_value [OF this, of "[]" "'' ''" "''PING''" not_quote "''}''"]
  have "extract_group (quoted_value_items ''type'' not_quote) (simple_msgs MsgPing) = ''PING''"
    by (simp add: spaces_def is_space_def class_has_not_quote)
  moreover have "re_compile pat_type = Some (quoted_value_items ''type'' not_quote)"
    using re_compile_quoted_value [OF _ bracket_texts(1), of "''type''"]
    by (simp add: pat_type_def quoted_value_def plain_def special_def)
  ultimately show ?thesis by (simp add: regexExtract_def)
qed

text \<open>The effect of saying one of the fixed texts.\<close>

lemma sendSimple_says:
  assumes "t \<noteq> SimpleMessageCount" and "ns \<noteq> NamespacesCount" and "t \<noteq> MsgGetStatus"
    and "EXT_SSL_write (ssl w) \<noteq> None" and "ascii (dest w)"
  shows "\<exists>w'. sendSimple E t ns w =
      Some (env_int E (tick w) = int (length (frame (env_target E) (message_for (dest w) (ns_strings ns) (simple_msgs t)))), w') \<and>
    core w' = core w \<and> sends w' = sends w @ [frame (env_target E) (message_for (dest w) (ns_strings ns) (simple_msgs t))]"
proof -
  let ?v = "if t = MsgPing \<or> t = MsgPong then w\<lparr>s_verbose := False\<rparr> else w"
  have "cast_writable (message_for (dest ?v) (ns_strings ns) (simple_msgs t))"
    by (rule cast_clean_writable, rule cast_clean_message) (use assms in simp_all)
  moreover have "EXT_SSL_write (ssl ?v) \<noteq> None" "dest ?v = dest w" "tick ?v = tick w" "sends ?v = sends w" using assms(4) by simp_all
  ultimately obtain w1 where m: "sendMessage E (ns_strings ns) (simple_msgs t) ?v =
      Some (env_int E (tick w) = int (length (frame (env_target E) (message_for (dest w) (ns_strings ns) (simple_msgs t)))), w1)"
    and w1: "sends w1 = sends w @ [frame (env_target E) (message_for (dest w) (ns_strings ns) (simple_msgs t))]" "core w1 = core ?v"
    using sendMessage_writable [of ?v "ns_strings ns" "simple_msgs t" E] by auto
  have "core (w1\<lparr>s_verbose := s_verbose w\<rparr>) = core w" using w1(2) by (simp split: if_splits)
  then show ?thesis using m w1(1) assms(1-3) by (simp add: sendSimple_def Let_def)
qed


text \<open>What a status can change.\<close>

lemma read_status_keeps:
  assumes "read_status E payload w = Some (u, w')"
  shows "sends w' = sends w \<and> s_youtube w' = s_youtube w \<and> currentVideo w' = currentVideo w \<and>
    currentSegments w' = currentSegments w \<and> dest w' = dest w \<and> s_requestId w' = s_requestId w"
proof -
  define same where "same = (\<lambda>w v. sends v = sends w \<and> s_youtube v = s_youtube w \<and> currentVideo v = currentVideo w \<and>
    currentSegments v = currentSegments w \<and> dest v = dest w \<and> s_requestId v = s_requestId w)"
  have quiet: "same w v" if "quiet w v" for w v
    using core_eqD [OF that [THEN conjunct1]] that by (simp add: same_def)
  obtain n1 w1 where 1: "extractNumber pat_duration payload w = Some (n1, w1)"
    using assms by (auto simp: read_status_def elim!: bind_SomeE)
  let ?w2 = "case n1 of None \<Rightarrow> w1 | Some d \<Rightarrow> w1\<lparr>currentDuration := d\<rparr>"
  obtain n2 w3 where 2: "extractNumber pat_currentTime payload ?w2 = Some (n2, w3)"
    using assms 1 by (auto simp: read_status_def Let_def elim!: bind_SomeE)
  let ?w4 = "case n2 of None \<Rightarrow> w3
    | Some p \<Rightarrow> (let w = w3\<lparr>s_currentPosition := p\<rparr>; (now, w) = time E w in w\<lparr>s_lastPositionFetched := of_integer now\<rparr>)"
  obtain st session where w': "w' = (let w = (if st \<noteq> [] then ?w4\<lparr>currentlyPlaying := (st = ''PLAYING''), s_currentStatus := st\<rparr> else ?w4)
      in if session \<noteq> [] then (when_verbose (puts (''Got media session '' @ session)) w)\<lparr>mediaSession := session\<rparr> else w)"
    using assms 1 2 unfolding read_status_def Let_def by (auto elim!: bind_SomeE)
  have "same w ?w2" using quiet [OF extractNumber_quiet [OF 1]] by (cases n1) (simp_all add: same_def)
  moreover have "same ?w2 w3" by (rule quiet [OF extractNumber_quiet [OF 2]])
  moreover have "same w3 ?w4"
  proof (cases n2)
    case (Some p)
    obtain now v where t: "time E (w3\<lparr>s_currentPosition := p\<rparr>) = (now, v)" by fastforce
    have "same (w3\<lparr>s_currentPosition := p\<rparr>) v" using quiet time_eq [OF t] by blast
    then show ?thesis using Some t by (simp add: same_def)
  qed (simp add: same_def)
  moreover have "same ?w4 w'" unfolding w' Let_def by (simp add: same_def)
  moreover have trans: "same u v \<Longrightarrow> same v x \<Longrightarrow> same u x" for u v x by (simp add: same_def)
  ultimately have "same w w'" using trans by blast
  then show ?thesis by (simp add: same_def)
qed

subsection \<open>Silence, keys and errors\<close>

lemma unset_position:
  assumes "dlt (s_currentPosition w) (Fin 0)"
  shows "\<exists>p. currentPosition E w = (p, w) \<and> printProgress p d w = Some ((), out (s_currentStatus w @ erase_line) w)"
proof -
  let ?p = "if currentlyPlaying w then unset else s_currentPosition w"
  have "dlt unset (Fin 0)" by (simp add: dlt_def)
  then have "printProgress ?p d w = Some ((), out (s_currentStatus w @ erase_line) w)"
    using assms by (simp add: printProgress_def)
  moreover have "currentPosition E w = (?p, w)" using assms by (simp add: currentPosition_def)
  ultimately show ?thesis by blast
qed

lemma interrupted_step:
  assumes "\<And>t. env_signal E t = None" and "\<And>t e. env_errno E t e = e" and "\<And>t. 0 \<le> fst (env_select E t)"
    and "errno w = EINTR" and "s_running w" and "\<not> eof c" and "dlt (s_currentPosition w) (Fin 0)"
  shows "\<exists>w'. loop_step E c w = Some (Again, c, w') \<and> core w' = core w \<and> sends w' = sends w \<and> errno w' = EINTR \<and> s_running w'"
proof -
  obtain events i f v where sel: "sys E (env_select E) w = ((events, i, f), v)" by (cases "sys E (env_select E) w") auto
  have v: "core v = core w" "sends v = sends w" "errno v = EINTR" "s_running v" "0 \<le> events"
    using sel snd_sys_core [OF sel] assms(1-5) by (auto simp: sys_def split: option.splits) (metis fst_conv)
  have "dlt (s_currentPosition v) (Fin 0)" using assms(7) core_eqD(7) [OF v(1)] by simp
  then obtain p where p: "currentPosition E v = (p, v)"
    "printProgress p (currentDuration v) v = Some ((), out (s_currentStatus v @ erase_line) v)"
    using unset_position by blast
  have "loop_step E c w = Some (Again, c, out (s_currentStatus v @ erase_line) v)"
    using assms(5,6) sel p v by (simp add: loop_step_def loop_body_def emit_def)
  then show ?thesis using v by (simp add: emit_def) (simp add: sends_def core_def)
qed


subsection \<open>Examples\<close>

text \<open>What \<open>sendMessage\<close> on the other side makes of a text, the length in front taken off.\<close>

definition received :: "cast_ns \<Rightarrow> string \<Rightarrow> string" where
  "received ns text = string_of (cast_bytes tg0 (message_for ''client'' (ns_strings ns) text))"

lemma received_parses:
  assumes "ascii text" and "cast_size (message_for ''client'' (ns_strings ns) text) < 2 ^ 31"
  shows "cast_parse tg0 (bytes_of (received ns text)) = Got (message_for ''client'' (ns_strings ns) text)"
proof -
  let ?m = "message_for ''client'' (ns_strings ns) text"
  have clean: "cast_clean ?m" by (rule cast_clean_message) (simp_all add: assms(1))
  then show ?thesis
    using cast_parse_bytes [OF clean, of tg0 tg0] cast_clean_message_for [OF clean] length_cast_bytes [OF clean, of tg0] assms(2)
    by (simp add: received_def)
qed

lemma message_texts [simp]: "payload_utf8 (message_for to ns text) = text" "namespace (message_for to ns text) = ns"
  by (simp_all add: message_for_def)

definition example_connection :: connection where
  "example_connection = \<lparr>eof = False, ctx = None, handle = None, fd = 3\<rparr>"

definition example_status :: string where
  "example_status = status_text 7 ''PLAYING'' 20 ''abc'' 300"

lemma example_status_received: "cast_parse tg0 (bytes_of (received NsMedia example_status)) =
    Got (message_for ''client'' (ns_strings NsMedia) example_status)"
proof (rule received_parses)
  show "ascii example_status" by (simp add: example_status_def status_text_def status_head_def)
  show "cast_size (message_for ''client'' (ns_strings NsMedia) example_status) < 2 ^ 31"
    by (simp add: cast_size_simps message_for_def cast_reset_def quoted_def example_status_def status_text_def status_head_def dec.simps leb128_small leb128_big)
qed

lemma ping_received: "cast_parse tg0 (bytes_of (received NsHeartbeat (simple_msgs MsgPing))) =
    Got (message_for ''client'' (ns_strings NsHeartbeat) (simple_msgs MsgPing))"
  by (rule received_parses) (simp_all add: cast_size_simps message_for_def cast_reset_def quoted_def)

subsection \<open>Properties\<close>

text \<open>C1. What the program is for. The device reports a position inside a segment of the video that is playing:
  the next and only thing the program sends is a seek to the end of such a segment, for the media session
  just reported. (The clock reads the same second throughout; whole seconds.)\<close>

theorem status_skips_segment:
  assumes "cast_parse (env_target E) (bytes_of buffer) = Got m"
    and "payload_utf8 m = status_text session ''PLAYING'' position video duration"
    and "list_all (class_has video_chars) video" and "video \<noteq> []" and "video \<noteq> ''duration''"
    and "0 < position" and "position < 2 ^ 31" and "0 < duration" and "duration < 2 ^ 53"
    and "errno w \<noteq> ERANGE" and "s_youtube w" and "currentVideo w = video" and "\<not> s_adblock w"
    and "\<And>t. env_time E t = now" and "\<bar>now\<bar> < 2 ^ 51" and "s_lastSeek w < now"
    and "list_all whole_segment (currentSegments w)" and "\<exists>s \<in> set (currentSegments w). inside (int position) s"
    and "EXT_SSL_write (ssl w) \<noteq> None" and "int_ok (s_requestId w + 1)" and "ascii (dest w)"
  shows "\<exists>w' s. handleMessage E buffer w = Some (True, w') \<and>
    s \<in> set (currentSegments w) \<and> inside (int position) s \<and>
    sends w' = sends w @ [frame (env_target E) (message_for (dest w) (ns_strings NsMedia)
      (seek_text (dec_int (s_requestId w)) (dec session) (seg_end s)))]"
  using assms by (rule status_handled)

theorem status_skips_segment_witness:
  "\<exists>w'. handleMessage (still_env 1002 0) (received NsMedia example_status) playing_world = Some (True, w') \<and>
    sends w' = [frame tg0 (message_for [] (ns_strings NsMedia) (seek_text ''1'' ''7'' (Fin 40)))]"
proof -
  have seven: "dec 7 = ''7''" "dec_int 1 = ''1''" by (simp_all add: dec_int_def dec.simps char_of_def bit_0 bit_Suc)
  have payload: "payload_utf8 (message_for ''client'' (ns_strings NsMedia) example_status) =
      status_text 7 ''PLAYING'' 20 ''abc'' 300"
    by (simp add: example_status_def)
  have "whole_segment \<lparr>seg_begin = Fin 12, seg_end = Fin 40\<rparr>"
    unfolding whole_segment_def by (intro exI [of _ 12] exI [of _ 40]) simp
  then show ?thesis
    using status_skips_segment [of "still_env 1002 0" "received NsMedia example_status" _ 7 20 "''abc''" 300 playing_world 1002,
        OF _ payload] example_status_received
    by (simp add: playing_world_def linked_world_def linked_def still_env_def video_chars_def in_range_def ERANGE_def
        inside_def sends_def int_ok_def seven del: ns_strings.simps)
qed


text \<open>C7. A status is read as it was written: after one, the state holds the length, position, media session and
  player state it reports and the time it came in, and nothing else has changed.\<close>

theorem status_read_back:
  assumes "state \<in> {''PLAYING'', ''PAUSED'', ''BUFFERING'', ''IDLE''}"
    and "list_all (class_has video_chars) video" and "video \<noteq> []" and "video \<noteq> ''duration''"
    and "0 < position" and "position < 2 ^ 53" and "0 < duration" and "duration < 2 ^ 53" and "errno w \<noteq> ERANGE"
  shows "\<exists>w'. read_status E (status_text session state position video duration) w = Some ((), w') \<and>
    core w' = as_reported (env_time E (tick w)) session state position duration (core w) \<and> sends w' = sends w"
  using assms by (rule read_status_text)

theorem status_read_back_witness:
  "\<exists>w'. read_status (still_env 1002 0) (status_text 7 ''PAUSED'' 20 ''abc'' 300) linked_world = Some ((), w') \<and>
    s_currentStatus (core w') = ''PAUSED'' \<and> s_currentPosition (core w') = Fin 20"
proof -
  have "list_all (class_has video_chars) ''abc''" by (simp add: video_chars_def in_range_def)
  moreover have "errno linked_world \<noteq> ERANGE" by (simp add: linked_world_def ERANGE_def)
  ultimately show ?thesis
    using status_read_back [of "''PAUSED''" "''abc''" 20 300 linked_world "still_env 1002 0" 7] by (auto simp: as_reported_def)
qed

text \<open>C24. A ping of the device is answered with one pong, to the same destination, and nothing else happens.\<close>

theorem ping_is_answered:
  assumes "cast_parse (env_target E) (bytes_of buffer) = Got m"
    and "namespace m = ns_strings NsHeartbeat" and "payload_utf8 m = simple_msgs MsgPing"
    and "EXT_SSL_write (ssl w) \<noteq> None" and "ascii (dest w)"
  shows "\<exists>w'. handleMessage E buffer w = Some (True, w') \<and> core w' = core w \<and>
    sends w' = sends w @ [frame (env_target E) (message_for (dest w) (ns_strings NsHeartbeat) (simple_msgs MsgPong))]"
proof -
  have "handleMessage E buffer w = handle_payload E m w"
    by (rule handle_parsed [OF assms(1)]) (simp add: assms(3))
  then have h: "handleMessage E buffer w = Option.bind (sendSimple E MsgPong NsHeartbeat w) (\<lambda>(_, w). Some (True, w))"
    unfolding handle_payload_def Let_def assms(2,3) type_of_simple by simp
  obtain ok w' where "sendSimple E MsgPong NsHeartbeat w = Some (ok, w')" "core w' = core w"
    "sends w' = sends w @ [frame (env_target E) (message_for (dest w) (ns_strings NsHeartbeat) (simple_msgs MsgPong))]"
    using sendSimple_says [of MsgPong NsHeartbeat w E] assms(4,5) by (auto simp del: ns_strings.simps simple_msgs.simps)
  then show ?thesis unfolding h by (simp del: ns_strings.simps simple_msgs.simps)
qed

theorem ping_is_answered_witness:
  "\<exists>w'. handleMessage (still_env 0 0) (received NsHeartbeat (simple_msgs MsgPing)) linked_world = Some (True, w') \<and>
    sends w' = [frame tg0 (message_for [] (ns_strings NsHeartbeat) (simple_msgs MsgPong))]"
  using ping_is_answered [of "still_env 0 0" "received NsHeartbeat (simple_msgs MsgPing)" _ linked_world] ping_received
  by (auto simp: linked_world_def linked_def still_env_def sends_def simp del: ns_strings.simps simple_msgs.simps)

text \<open>C25. Other applications are left alone: as long as the device does not run YouTube, a status of any content
  makes the program send nothing, download nothing and forget no segment.\<close>

theorem other_applications_left_alone:
  assumes "\<not> s_youtube w" and "media_status E payload w = Some (ok, w')"
  shows "ok \<and> sends w' = sends w \<and> \<not> s_youtube w' \<and> currentVideo w' = currentVideo w \<and>
    currentSegments w' = currentSegments w \<and> s_requestId w' = s_requestId w"
proof -
  obtain u v where v: "read_status E payload w = Some (u, v)" using assms(2) by (auto simp: media_status_def elim!: bind_SomeE)
  then show ?thesis using assms read_status_keeps [OF v] by (auto simp: media_status_def)
qed

theorem other_applications_left_alone_witness:
  "\<exists>w'. media_status (still_env 1002 0) (status_text 7 ''PLAYING'' 20 ''abc'' 300) (playing_world\<lparr>s_youtube := False\<rparr>) =
      Some (True, w') \<and> sends w' = []"
proof -
  let ?w = "playing_world\<lparr>s_youtube := False\<rparr>"
  have "list_all (class_has video_chars) ''abc''" by (simp add: video_chars_def in_range_def)
  moreover have "errno ?w \<noteq> ERANGE" by (simp add: playing_world_def linked_world_def ERANGE_def)
  ultimately obtain v where v: "read_status (still_env 1002 0) (status_text 7 ''PLAYING'' 20 ''abc'' 300) ?w = Some ((), v)"
    using read_status_text [of "''PLAYING''" "''abc''" 20 300 ?w "still_env 1002 0" 7] by auto
  have "\<not> s_youtube ?w" by simp
  moreover have run: "media_status (still_env 1002 0) (status_text 7 ''PLAYING'' 20 ''abc'' 300) ?w = Some (True, v)"
    using v read_status_keeps [OF v] by (simp add: media_status_def)
  ultimately show ?thesis
    using other_applications_left_alone [OF _ run] by (simp add: playing_world_def linked_world_def sends_def)
qed


text \<open>C26. A silent connection is tested. When nothing came for more than 30 seconds and no segment is due, the
  timeout sends exactly one ping; when the library does not take all of it, the pass ends the connection
  with \<open>ETIMEDOUT\<close>.\<close>

theorem silence_is_broken:
  assumes "\<not> dlt (Fin 0) (nextSegmentStart w)" and "PING_INTERVAL < env_time E (tick w) - s_lastPing w"
    and "EXT_SSL_write (ssl w) \<noteq> None" and "ascii (dest w)" and "errno w \<noteq> EINTR"
  shows "\<exists>t ok w'. on_timeout E w = Some (ok, w') \<and>
    ok = (env_int E t = int (length (frame (env_target E) (message_for (dest w) (ns_strings NsHeartbeat) (simple_msgs MsgPing))))) \<and>
    sends w' = sends w @ [frame (env_target E) (message_for (dest w) (ns_strings NsHeartbeat) (simple_msgs MsgPing))] \<and>
    (\<not> ok \<longrightarrow> loop_body E 0 False f c w = Some (Return ETIMEDOUT, c, w'))"
proof -
  let ?f = "frame (env_target E) (message_for (dest w) (ns_strings NsHeartbeat) (simple_msgs MsgPing))"
  obtain now v where t: "time E w = (now, v)" by fastforce
  note v = time_eq [OF t]
  define u where "u = when_verbose (puts (''Sending ping, last ping: '' @ dec_int (s_lastPing v) @
      '' current time: '' @ dec_int now @ '' delta: '' @ dec_int (now - s_lastPing v))) v"
  have u: "core u = core w" "sends u = sends w" using v by (simp_all add: u_def)
  note fv = core_eqD [OF conjunct1 [OF conjunct2 [OF conjunct2 [OF v]]]] and fu = core_eqD [OF u(1)]
  obtain ok x where x: "sendSimple E MsgPing NsHeartbeat u = Some (ok, x)" "sends x = sends w @ [?f]"
    and ok: "ok = (env_int E (tick u) = int (length ?f))"
    using sendSimple_says [of MsgPing NsHeartbeat u E] assms(3,4) fu u(2) by (auto simp del: ns_strings.simps simple_msgs.simps)
  have due: "PING_INTERVAL < now - s_lastPing v" using v fv(12) assms(2) by simp
  have step: "on_timeout E w = (if \<not> ok then Some (False, puts ''Failed to send ping, assuming disconnected'' x)
      else (let (now, w) = time E x in Some (True, w\<lparr>s_lastPing := now\<rparr>)))"
    using assms(1) t due x(1) by (simp add: on_timeout_def Let_def u_def del: ns_strings.simps simple_msgs.simps)
  show ?thesis
  proof (cases ok)
    case True
    obtain t2 y where "time E x = (t2, y)" by fastforce
    with step x(2) True ok time_eq [OF this] show ?thesis
      by (intro exI [of _ "tick u"] exI [of _ True] exI [of _ "y\<lparr>s_lastPing := t2\<rparr>"]) simp
  next
    case False
    then have "on_timeout E w = Some (False, puts ''Failed to send ping, assuming disconnected'' x)" using step by simp
    with x(2) assms(5) False ok show ?thesis
      by (intro exI [of _ "tick u"] exI [of _ False] exI [of _ "puts ''Failed to send ping, assuming disconnected'' x"])
        (simp add: loop_body_def)
  qed
qed

theorem silence_is_broken_witness:
  "\<exists>w'. loop_body (still_env 100 0) 0 False False example_connection linked_world =
      Some (Return ETIMEDOUT, example_connection, w') \<and>
    sends w' = [frame tg0 (message_for [] (ns_strings NsHeartbeat) (simple_msgs MsgPing))]"
proof -
  have "length (frame tg0 m) \<noteq> 0" for m by (simp add: frame_def)
  then show ?thesis
    using silence_is_broken [of linked_world "still_env 100 0" False example_connection]
    by (auto simp: linked_world_def linked_def still_env_def dlt_def PING_INTERVAL_def EINTR_def sends_def
        simp del: ns_strings.simps simple_msgs.simps)
qed



text \<open>C35. An interrupt that is never forgotten. The pass asks \<open>errno\<close> for \<open>EINTR\<close> after a \<open>select\<close> that
  succeeded, and calls that succeed leave \<open>errno\<close> alone: with a stale \<open>EINTR\<close>, such as the stop and
  continue of the process leaves behind, and no position, the loop goes on for ever without reading a
  message, looking at a key or sending a ping.\<close>

theorem stale_interrupt_blinds:
  assumes "\<And>t. env_signal E t = None" and "\<And>t e. env_errno E t e = e" and "\<And>t. 0 \<le> fst (env_select E t)"
    and "errno w = EINTR" and "s_running w" and "\<not> eof c" and "dlt (s_currentPosition w) (Fin 0)"
  shows "\<exists>w'. loop_run E n c w = Some (Again, c, w') \<and> core w' = core w \<and> sends w' = sends w \<and> errno w' = EINTR"
  using assms(4,5,7)
proof (induction n arbitrary: w)
  case (Suc n)
  obtain v where v: "loop_step E c w = Some (Again, c, v)" "core v = core w" "sends v = sends w" "errno v = EINTR" "s_running v"
    using interrupted_step [of E w c, OF assms(1-3) Suc.prems(1,2) assms(6) Suc.prems(3)] by blast
  then show ?case using Suc.IH [of v] core_eqD(7) [OF v(2)] Suc.prems(3) by auto
qed simp

theorem stale_interrupt_blinds_witness:
  "\<exists>w'. loop_run (still_env 0 113) 1000 \<lparr>eof = False, ctx = None, handle = None, fd = 3\<rparr> (linked_world\<lparr>errno := EINTR\<rparr>) =
    Some (Again, \<lparr>eof = False, ctx = None, handle = None, fd = 3\<rparr>, w') \<and> sends w' = []"
  using stale_interrupt_blinds [of "still_env 0 113" "linked_world\<lparr>errno := EINTR\<rparr>"
      "\<lparr>eof = False, ctx = None, handle = None, fd = 3\<rparr>" 1000]
  by (auto simp: linked_world_def still_env_def dlt_def sends_def)

text \<open>What \<open>receive\<close> refuses. A connection closed by the device reads as an empty size: the result is
  \<open>EBADMSG\<close>, never the branch that reports the end of the connection. A size above 64 KiB ends the connection with the
  size alone read, and a message shorter than announced is not looked at; in each case nothing is sent.\<close>

theorem receive_refuses:
  assumes "conn_read E c 4 w = Some (b, c1, w1)"
    and "length b \<noteq> 4 \<or> eof c1 \<and> \<not> eof c \<or>
      64 * 1024 < unat (ntohl (env_target E) (load_int (env_target E) (bytes_of b))) \<or>
      (\<exists>r c2 w2. conn_read E c1 (uint (ntohl (env_target E) (load_int (env_target E) (bytes_of b)))) w1 = Some (r, c2, w2) \<and>
         length r < unat (ntohl (env_target E) (load_int (env_target E) (bytes_of b))))"
    and "\<not> eof c"
  shows "\<exists>c' w'. receive E c w = Some (Return EBADMSG, c', w') \<and> sends w' = sends w"
proof -
  have b: "eof c1 \<longrightarrow> b = []"
    using assms(1,3) by (auto simp: conn_read_def split: if_split_asm sum.split_asm elim!: bind_SomeE)
  have w1: "sends w1 = sends w" using conn_read_quiet [OF assms(1)] by simp
  consider "length b \<noteq> 4" | "length b = 4" "\<not> eof c1" "64 * 1024 < unat (ntohl (env_target E) (load_int (env_target E) (bytes_of b)))"
    | r c2 w2 where "length b = 4" "\<not> eof c1" "\<not> 64 * 1024 < unat (ntohl (env_target E) (load_int (env_target E) (bytes_of b)))"
        "conn_read E c1 (uint (ntohl (env_target E) (load_int (env_target E) (bytes_of b)))) w1 = Some (r, c2, w2)"
        "length r < unat (ntohl (env_target E) (load_int (env_target E) (bytes_of b)))"
    using assms(2) b by (cases "length b = 4"; cases "eof c1") auto
  then show ?thesis
  proof cases
    case 3
    then show ?thesis using assms(1) w1 conn_read_quiet [OF 3(4)] by (simp add: receive_def Let_def)
  qed (use assms(1) w1 in \<open>simp_all add: receive_def Let_def\<close>)
qed

theorem receive_refuses_witness:
  "\<exists>c' w'. receive ((still_env 0 0)\<lparr>env_ssl_read := (\<lambda>_ _. Inr [])\<rparr>) \<lparr>eof = False, ctx = None, handle = None, fd = 3\<rparr> linked_world =
    Some (Return EBADMSG, c', w')"
proof -
  let ?E = "(still_env 0 0)\<lparr>env_ssl_read := (\<lambda>_ _. Inr [])\<rparr>" and ?c = "\<lparr>eof = False, ctx = None, handle = None, fd = 3\<rparr>"
  obtain c1 w1 where "conn_read ?E ?c 4 linked_world = Some ([], c1, w1)"
    by (simp add: conn_read_def SSL_read_def through_def sys_def linked_world_def linked_def)
  from receive_refuses [OF this] show ?thesis by auto
qed

end
